theory Spec2Isabelle
  imports Main "HOL-Library.Sublist"
begin

section \<open>Data model of the gateway (src/main.py)\<close>

text \<open>
  The gateway receives a chat-completion request, selects the configured providers whose
  model list contains the requested model, and tries them one after another until one
  answers. The embedding follows \<^verbatim>\<open>src/main.py\<close>: the pydantic classes become records,
  the provider dictionaries of the configuration become a record with one field per key,
  exceptions become the left summand of a sum type, and the mutable attribute
  \<^verbatim>\<open>last_provider_index\<close>, the standard output and the requests issued through the shared
  HTTP client are threaded through every function as an explicit state.
\<close>

subsection \<open>Inbound request: ContentItem, Message, RequestModel\<close>

record ContentItem =
  item_type :: string
  item_text :: string

text \<open>\<^verbatim>\<open>content: Union[str, List[ContentItem]]\<close>: a tagged union of the two shapes.\<close>

datatype content = Str string | Parts "ContentItem list"

record Message =
  role :: string
  content :: content

text \<open>
  The fields of \<^verbatim>\<open>RequestModel\<close> (lines 61 to 67). The four optional fields have type
  \<^verbatim>\<open>Optional[...]\<close>, so the validated object holds \<^verbatim>\<open>None\<close> or a value.
\<close>

record RequestModel =
  model :: string
  messages :: "Message list"
  logprobs :: "bool option"
  top_logprobs :: "int option"
  stream :: "bool option"
  include_usage :: "bool option"

text \<open>
  What the caller wrote for an optional field of the request body: nothing at all, an
  explicit \<^verbatim>\<open>null\<close>, or a value.
\<close>

datatype 'a field = Omitted | Null | Given 'a

record inbound =
  in_model :: string
  in_messages :: "Message list"
  in_logprobs :: "bool field"
  in_top_logprobs :: "int field"
  in_stream :: "bool field"
  in_include_usage :: "bool field"

text \<open>
  A field declared \<^verbatim>\<open>Optional[T] = d\<close> takes the default \<^verbatim>\<open>d\<close> when the body omits
  it, \<^verbatim>\<open>None\<close> when the body gives \<^verbatim>\<open>null\<close>, and the value otherwise.
\<close>

definition with_default :: "'a option \<Rightarrow> 'a field \<Rightarrow> 'a option" where
  "with_default d f = (case f of Omitted \<Rightarrow> d | Null \<Rightarrow> None | Given v \<Rightarrow> Some v)"

text \<open>
  Construction of the validated \<^verbatim>\<open>RequestModel\<close> from a well-typed body, with the defaults
  of lines 64 to 67: \<^verbatim>\<open>logprobs = False\<close>, \<^verbatim>\<open>top_logprobs = None\<close>, \<^verbatim>\<open>stream = False\<close>,
  \<^verbatim>\<open>include_usage = False\<close>.
\<close>

definition validate :: "inbound \<Rightarrow> RequestModel" where
  "validate b =
     \<lparr> model = in_model b,
       messages = in_messages b,
       logprobs = with_default (Some False) (in_logprobs b),
       top_logprobs = with_default None (in_top_logprobs b),
       stream = with_default (Some False) (in_stream b),
       include_usage = with_default (Some False) (in_include_usage b) \<rparr>"

subsection \<open>Provider registry\<close>

text \<open>
  An entry of the configuration list \<^verbatim>\<open>config\<close>: the dictionary with the keys
  \<^verbatim>\<open>provider\<close>, \<^verbatim>\<open>base_url\<close>, \<^verbatim>\<open>api\<close> and \<^verbatim>\<open>model\<close> (a list of model names).
\<close>

record Provider =
  p_provider :: string
  p_base_url :: string
  p_api :: string
  p_model :: "string list"

subsection \<open>Outbound payload, HTTP exchange, errors\<close>

text \<open>Values that occur in a payload or in a parsed response body.\<close>

datatype jvalue =
    JStr string
  | JBool bool
  | JInt int
  | JList "jvalue list"
  | JObj "(string \<times> jvalue) list"

type_synonym payload = "string \<rightharpoonup> jvalue"
type_synonym headers = "string \<rightharpoonup> string"

text \<open>One call of \<^verbatim>\<open>client.post(url, headers=headers, json=payload)\<close>.\<close>

type_synonym http_request = "string \<times> headers \<times> payload"

text \<open>
  What the HTTP client does with a request: \<^verbatim>\<open>client.post\<close> raises (no connection, timeout),
  or it returns a response object with a status code and a body. The body is given as the
  value \<^verbatim>\<open>response.json()\<close> parses it to, or \<open>None\<close> where \<^verbatim>\<open>response.json()\<close> raises.
\<close>

datatype http_outcome = ConnectFailed | Response nat "jvalue option"

text \<open>
  The network is outside the program: its answer may depend on the request and on every
  request issued before it.
\<close>

type_synonym network = "http_request list \<Rightarrow> http_request \<Rightarrow> http_outcome"

datatype exn =
    HTTPException nat string
  | TransportError
  | JSONDecodeError
  | IndexError
  | ZeroDivisionError

text \<open>
  What \<^verbatim>\<open>process_request\<close> returns: the parsed body of a buffered call, or a
  \<^verbatim>\<open>StreamingResponse\<close> that wraps the generator \<^verbatim>\<open>fetch_response_stream\<close> (not yet
  started) together with its media type.
\<close>

datatype response = Json jvalue | StreamingResponse http_request string

text \<open>Lines written by \<^verbatim>\<open>print\<close>.\<close>

datatype event =
    PrintProvider string
  | PrintMatching "Provider list"
  | PrintError string exn

record state =
  last_provider_index :: int
  stdout :: "event list"
  posts :: "http_request list"

text \<open>\<^verbatim>\<open>ModelRequestHandler.__init__\<close>: the cursor starts at \<open>-1\<close>.\<close>

definition init :: state where
  "init = \<lparr> last_provider_index = - 1, stdout = [], posts = [] \<rparr>"

section \<open>Built-in operations of the language\<close>

text \<open>\<^verbatim>\<open>sep.join(xs)\<close> on strings.\<close>

fun join :: "string \<Rightarrow> string list \<Rightarrow> string" where
  "join sep [] = []"
| "join sep [x] = x"
| "join sep (x # y # ys) = x @ sep @ join sep (y # ys)"

text \<open>
  Subscription \<^verbatim>\<open>xs[i]\<close> of a list: positions \<open>0\<close> to \<open>len - 1\<close> from the front, \<open>-1\<close>
  down to \<open>-len\<close> from the back, and \<^verbatim>\<open>IndexError\<close> for every other integer.
\<close>

definition py_index :: "'a list \<Rightarrow> int \<Rightarrow> exn + 'a" where
  "py_index xs i =
     (if 0 \<le> i \<and> i < int (length xs) then Inr (xs ! nat i)
      else if - int (length xs) \<le> i \<and> i < 0 then Inr (xs ! nat (int (length xs) + i))
      else Inl IndexError)"

text \<open>\<^verbatim>\<open>a % b\<close> on integers: the result has the sign of \<open>b\<close>; \<open>b = 0\<close> raises.\<close>

definition py_mod :: "int \<Rightarrow> int \<Rightarrow> exn + int" where
  "py_mod a b = (if b = 0 then Inl ZeroDivisionError else Inr (a mod b))"

text \<open>\<^verbatim>\<open>str.lower\<close> on the ASCII letters.\<close>

definition lower_char :: "char \<Rightarrow> char" where
  "lower_char c =
     (case map_of (zip ''ABCDEFGHIJKLMNOPQRSTUVWXYZ'' ''abcdefghijklmnopqrstuvwxyz'') c of
        Some d \<Rightarrow> d
      | None \<Rightarrow> c)"

definition lower :: "string \<Rightarrow> string" where
  "lower s = map lower_char s"

section \<open>The payload translator and the provider client\<close>

text \<open>Lines 96 to 101: the content of one message, flattened.\<close>

definition flatten_content :: "content \<Rightarrow> string" where
  "flatten_content c =
     (case c of
        Parts items \<Rightarrow> join '' '' (map item_text (filter (\<lambda>item. item_type item = ''text'') items))
      | Str s \<Rightarrow> s)"

definition convert_message :: "Message \<Rightarrow> jvalue" where
  "convert_message msg =
     JObj [(''role'', JStr (role msg)), (''content'', JStr (flatten_content (content msg)))]"

text \<open>Lines 103 to 120: the payload dictionary, built by successive assignments.\<close>

definition build_payload :: "RequestModel \<Rightarrow> Provider \<Rightarrow> payload" where
  "build_payload request provider =
     (let payload0 = [''model'' \<mapsto> JStr (model request),
                      ''messages'' \<mapsto> JList (map convert_message (messages request))];
          payload1 = (case stream request of
                        Some b \<Rightarrow> payload0(''stream'' \<mapsto> JBool b)
                      | None \<Rightarrow> payload0);
          payload2 = (case include_usage request of
                        Some b \<Rightarrow> payload1(''include_usage'' \<mapsto> JBool b)
                      | None \<Rightarrow> payload1)
      in if p_provider provider = ''anthropic''
         then payload2(''max_tokens'' \<mapsto> JInt 1000)
         else
           (let payload3 = (case logprobs request of
                              Some b \<Rightarrow> payload2(''logprobs'' \<mapsto> JBool b)
                            | None \<Rightarrow> payload2)
            in case top_logprobs request of
                 Some k \<Rightarrow> payload3(''top_logprobs'' \<mapsto> JInt k)
               | None \<Rightarrow> payload3))"

text \<open>Lines 89 to 92.\<close>

definition build_headers :: "Provider \<Rightarrow> headers" where
  "build_headers provider =
     [''Authorization'' \<mapsto> ''Bearer '' @ p_api provider,
      ''Content-Type'' \<mapsto> ''application/json'']"

definition build_request :: "RequestModel \<Rightarrow> Provider \<Rightarrow> http_request" where
  "build_request request provider =
     (p_base_url provider, build_headers provider, build_payload request provider)"

text \<open>
  \<^verbatim>\<open>fetch_response\<close>: one \<^verbatim>\<open>client.post\<close>, then \<^verbatim>\<open>response.json()\<close>. The status code of
  the response is never read.
\<close>

definition fetch_response :: "network \<Rightarrow> http_request \<Rightarrow> state \<Rightarrow> (exn + jvalue) \<times> state" where
  "fetch_response net req s =
     (let s' = s\<lparr>posts := posts s @ [req]\<rparr>
      in case net (posts s) req of
           ConnectFailed \<Rightarrow> (Inl TransportError, s')
         | Response status body \<Rightarrow>
             (case body of None \<Rightarrow> (Inl JSONDecodeError, s') | Some j \<Rightarrow> (Inr j, s')))"

text \<open>
  \<^verbatim>\<open>process_request\<close>. With \<^verbatim>\<open>request.stream\<close> true it returns the \<^verbatim>\<open>StreamingResponse\<close>
  at once: the generator inside has not run, so no request has been issued yet.
\<close>

definition process_request ::
  "network \<Rightarrow> RequestModel \<Rightarrow> Provider \<Rightarrow> state \<Rightarrow> (exn + response) \<times> state" where
  "process_request net request provider s =
     (let s1 = s\<lparr>stdout := stdout s @ [PrintProvider (p_provider provider)]\<rparr>;
          req = build_request request provider
      in if stream request = Some True
         then (Inr (StreamingResponse req ''text/event-stream''), s1)
         else (case fetch_response net req s1 of
                 (Inl e, s2) \<Rightarrow> (Inl e, s2)
               | (Inr j, s2) \<Rightarrow> (Inr (Json j), s2)))"

section \<open>The failover coordinator: ModelRequestHandler\<close>

definition get_matching_providers :: "Provider list \<Rightarrow> string \<Rightarrow> Provider list" where
  "get_matching_providers config model_name =
     filter (\<lambda>provider. model_name \<in> set (p_model provider)) config"

text \<open>Lines 152 to 155: the index the cursor is set to in iteration \<open>i\<close>.\<close>

definition next_index :: "bool \<Rightarrow> int \<Rightarrow> nat \<Rightarrow> nat \<Rightarrow> exn + int" where
  "next_index use_round_robin start_index num_providers i =
     (if use_round_robin then py_mod (start_index + int i) (int num_providers)
      else Inr (int i))"

text \<open>
  The body of \<^verbatim>\<open>for i in range(num_providers)\<close>, as a recursion over the remaining values
  of \<open>i\<close>. An exception of \<^verbatim>\<open>process_request\<close> is caught and printed; when the range is
  exhausted the loop falls through to the final \<^verbatim>\<open>raise\<close>.
\<close>

fun try_loop ::
  "network \<Rightarrow> RequestModel \<Rightarrow> Provider list \<Rightarrow> bool \<Rightarrow> int \<Rightarrow> nat list \<Rightarrow> state
     \<Rightarrow> (exn + response) \<times> state" where
  "try_loop net request providers use_round_robin start_index [] s =
     (Inl (HTTPException 500 ''All providers failed''), s)"
| "try_loop net request providers use_round_robin start_index (i # rest) s =
     (case next_index use_round_robin start_index (length providers) i of
        Inl e \<Rightarrow> (Inl e, s)
      | Inr k \<Rightarrow>
          (let s1 = s\<lparr>last_provider_index := k\<rparr>
           in case py_index providers (last_provider_index s1) of
                Inl e \<Rightarrow> (Inl e, s1)
              | Inr provider \<Rightarrow>
                  (case process_request net request provider s1 of
                     (Inr response, s2) \<Rightarrow> (Inr response, s2)
                   | (Inl e, s2) \<Rightarrow>
                       try_loop net request providers use_round_robin start_index rest
                         (s2\<lparr>stdout := stdout s2 @ [PrintError (p_provider provider) e]\<rparr>))))"

definition try_all_providers ::
  "network \<Rightarrow> RequestModel \<Rightarrow> Provider list \<Rightarrow> bool \<Rightarrow> state \<Rightarrow> (exn + response) \<times> state" where
  "try_all_providers net request providers use_round_robin s =
     (let num_providers = length providers;
          start_index = (if use_round_robin then last_provider_index s else 0)
      in try_loop net request providers use_round_robin start_index [0..<num_providers] s)"

text \<open>
  \<^verbatim>\<open>os.environ.get('USE_ROUND_ROBIN', 'false').lower() == 'true'\<close>, the environment being a
  dictionary of strings.
\<close>

definition use_round_robin_of :: "(string \<rightharpoonup> string) \<Rightarrow> bool" where
  "use_round_robin_of environ =
     (lower (case environ ''USE_ROUND_ROBIN'' of None \<Rightarrow> ''false'' | Some v \<Rightarrow> v) = ''true'')"

text \<open>
  \<^verbatim>\<open>ModelRequestHandler.request_model\<close>; \<open>config\<close> is the module-level provider list and
  \<open>environ\<close> the process environment.
\<close>

definition request_model ::
  "Provider list \<Rightarrow> (string \<rightharpoonup> string) \<Rightarrow> network \<Rightarrow> RequestModel \<Rightarrow> string \<Rightarrow> state
     \<Rightarrow> (exn + response) \<times> state" where
  "request_model config environ net request token s =
     (let model_name = model request;
          matching_providers = get_matching_providers config model_name;
          s1 = s\<lparr>stdout := stdout s @ [PrintMatching matching_providers]\<rparr>
      in if matching_providers = []
         then (Inl (HTTPException 404 ''No matching model found''), s1)
         else try_all_providers net request matching_providers (use_round_robin_of environ) s1)"

section \<open>What an attempt does, read off the code\<close>

text \<open>
  The three definitions of this section restate the code, not the specification.
  \<open>attempt_raises\<close> is the condition under which the call of \<^verbatim>\<open>process_request\<close> inside the
  \<^verbatim>\<open>try\<close> raises (lemma \<open>process_request_isl\<close> below proves that it is exactly that): the
  request is buffered and \<^verbatim>\<open>client.post\<close> raises or \<^verbatim>\<open>response.json()\<close> raises. The status
  code plays no part in it, and a streaming request never raises. \<open>hist\<close> is the list of
  requests issued so far.
\<close>

definition attempt_raises ::
  "network \<Rightarrow> RequestModel \<Rightarrow> http_request list \<Rightarrow> Provider \<Rightarrow> bool" where
  "attempt_raises net request hist provider =
     (stream request \<noteq> Some True \<and>
      (case net hist (build_request request provider) of
         ConnectFailed \<Rightarrow> True
       | Response status body \<Rightarrow> body = None))"

text \<open>The requests that attempts on the providers \<open>ps\<close> put on the wire.\<close>

definition issued :: "RequestModel \<Rightarrow> Provider list \<Rightarrow> http_request list" where
  "issued request ps =
     (if stream request = Some True then [] else map (build_request request) ps)"

text \<open>The call of \<^verbatim>\<open>process_request\<close> raises for every provider of the list, called in
  this order after \<open>hist\<close>.\<close>

fun all_attempts_raise ::
  "network \<Rightarrow> RequestModel \<Rightarrow> http_request list \<Rightarrow> Provider list \<Rightarrow> bool" where
  "all_attempts_raise net request hist [] = True"
| "all_attempts_raise net request hist (p # ps) =
     (attempt_raises net request hist p \<and>
      all_attempts_raise net request (hist @ issued request [p]) ps)"

section \<open>Concurrent requests\<close>

text \<open>
  The handler is a coroutine and the process serves many requests at once on one event
  loop. A coroutine runs without interruption until it awaits something that is not ready;
  in this program that happens at one place only, the \<^verbatim>\<open>await client.post(...)\<close> of
  \<^verbatim>\<open>fetch_response\<close> (line 82). Between two such points a request runs alone; at such a
  point any other request may run, and all of them read and write the one
  \<^verbatim>\<open>model_handler.last_provider_index\<close>. A streaming request never reaches line 82.

  A sweep in flight is the local state of one call of \<^verbatim>\<open>try_all_providers\<close>: its arguments,
  the value \<^verbatim>\<open>start_index\<close> read at entry, the values of \<open>i\<close> still to come from
  \<^verbatim>\<open>range(num_providers)\<close>, the provider whose call is being awaited, and what the call
  returned or raised once it is over.
\<close>

record sweep =
  sw_request :: RequestModel
  sw_providers :: "Provider list"
  sw_round_robin :: bool
  sw_start_index :: int
  sw_remaining :: "nat list"
  sw_awaiting :: "Provider option"
  sw_outcome :: "(exn + response) option"

text \<open>
  From the head of the \<^verbatim>\<open>for\<close> loop to the next await (lines 151 to 159, and lines 87 to 125
  and 82 inside the call): the cursor is written, the provider is read at the cursor, the
  attempt is announced, and either the \<^verbatim>\<open>StreamingResponse\<close> is returned at once or the
  request is issued and the sweep waits. When the range is exhausted the sweep ends with
  line 165.
\<close>

definition advance :: "sweep \<Rightarrow> state \<Rightarrow> sweep \<times> state" where
  "advance t s =
     (case sw_remaining t of
        [] \<Rightarrow>
          (t\<lparr>sw_awaiting := None,
             sw_outcome := Some (Inl (HTTPException 500 ''All providers failed''))\<rparr>, s)
      | i # rest \<Rightarrow>
          (case next_index (sw_round_robin t) (sw_start_index t) (length (sw_providers t)) i of
             Inl e \<Rightarrow> (t\<lparr>sw_awaiting := None, sw_outcome := Some (Inl e)\<rparr>, s)
           | Inr k \<Rightarrow>
               (let s1 = s\<lparr>last_provider_index := k\<rparr>
                in case py_index (sw_providers t) (last_provider_index s1) of
                     Inl e \<Rightarrow> (t\<lparr>sw_awaiting := None, sw_outcome := Some (Inl e)\<rparr>, s1)
                   | Inr provider \<Rightarrow>
                       (let s2 = s1\<lparr>stdout := stdout s1 @ [PrintProvider (p_provider provider)]\<rparr>;
                            req = build_request (sw_request t) provider
                        in if stream (sw_request t) = Some True
                           then (t\<lparr>sw_remaining := rest, sw_awaiting := None,
                                   sw_outcome :=
                                     Some (Inr (StreamingResponse req ''text/event-stream''))\<rparr>,
                                 s2)
                           else (t\<lparr>sw_remaining := rest, sw_awaiting := Some provider\<rparr>,
                                 s2\<lparr>posts := posts s2 @ [req]\<rparr>)))))"

text \<open>
  The awaited \<^verbatim>\<open>client.post\<close> is over, with the given outcome (lines 82 to 84, then 160 to
  163): a body that parses is returned, whatever the status; an exception is caught and
  printed and the loop goes on to its next iteration. A sweep that awaits nothing is not
  affected.
\<close>

definition complete :: "http_outcome \<Rightarrow> sweep \<Rightarrow> state \<Rightarrow> sweep \<times> state" where
  "complete outcome t s =
     (case sw_awaiting t of
        None \<Rightarrow> (t, s)
      | Some provider \<Rightarrow>
          (case outcome of
             ConnectFailed \<Rightarrow>
               advance (t\<lparr>sw_awaiting := None\<rparr>)
                 (s\<lparr>stdout := stdout s @ [PrintError (p_provider provider) TransportError]\<rparr>)
           | Response status body \<Rightarrow>
               (case body of
                  None \<Rightarrow>
                    advance (t\<lparr>sw_awaiting := None\<rparr>)
                      (s\<lparr>stdout := stdout s @ [PrintError (p_provider provider) JSONDecodeError]\<rparr>)
                | Some j \<Rightarrow>
                    (t\<lparr>sw_awaiting := None, sw_outcome := Some (Inr (Json j))\<rparr>, s))))"

text \<open>
  A request arrives: \<^verbatim>\<open>request_model\<close> runs (lines 135 to 145), and with a match the sweep
  starts (lines 148 and 149) and runs to its first await.
\<close>

definition arrive ::
  "Provider list \<Rightarrow> (string \<rightharpoonup> string) \<Rightarrow> RequestModel \<Rightarrow> state \<Rightarrow> sweep \<times> state" where
  "arrive config environ request s =
     (let model_name = model request;
          matching_providers = get_matching_providers config model_name;
          s1 = s\<lparr>stdout := stdout s @ [PrintMatching matching_providers]\<rparr>;
          use_round_robin = use_round_robin_of environ;
          t = \<lparr> sw_request = request, sw_providers = matching_providers,
                sw_round_robin = use_round_robin,
                sw_start_index = (if use_round_robin then last_provider_index s1 else 0),
                sw_remaining = [0..<length matching_providers],
                sw_awaiting = None, sw_outcome = None \<rparr>
      in if matching_providers = []
         then (t\<lparr>sw_outcome := Some (Inl (HTTPException 404 ''No matching model found''))\<rparr>, s1)
         else advance t s1)"

text \<open>
  What happens to the process: a request arrives, or the call awaited by the sweep with
  the given number is over. The order of these is not under the program's control.
\<close>

datatype action = Arrive "string \<rightharpoonup> string" RequestModel | Complete nat http_outcome

record system =
  shared :: state
  sweeps :: "sweep list"

definition boot :: system where
  "boot = \<lparr> shared = init, sweeps = [] \<rparr>"

definition step :: "Provider list \<Rightarrow> action \<Rightarrow> system \<Rightarrow> system" where
  "step config a sys =
     (case a of
        Arrive environ request \<Rightarrow>
          (case arrive config environ request (shared sys) of
             (t, s) \<Rightarrow> \<lparr> shared = s, sweeps = sweeps sys @ [t] \<rparr>)
      | Complete j outcome \<Rightarrow>
          (if j < length (sweeps sys)
           then (case complete outcome (sweeps sys ! j) (shared sys) of
                   (t, s) \<Rightarrow> \<lparr> shared = s, sweeps = (sweeps sys)[j := t] \<rparr>)
           else sys))"

fun run :: "Provider list \<Rightarrow> action list \<Rightarrow> system \<Rightarrow> system" where
  "run config [] sys = sys"
| "run config (a # rest) sys = run config rest (step config a sys)"

text \<open>
  What every reachable state of the process satisfies: in each sweep the values of \<open>i\<close>
  still to come are positions of its own provider list, which is no longer than the registry;
  and the cursor is \<open>-1\<close> or a position of the provider list of some sweep.
\<close>

definition consistent :: "Provider list \<Rightarrow> system \<Rightarrow> bool" where
  "consistent config sys =
     ((\<forall>t \<in> set (sweeps sys).
         (\<forall>i \<in> set (sw_remaining t). i < length (sw_providers t))
       \<and> length (sw_providers t) \<le> length config)
      \<and> (last_provider_index (shared sys) = - 1
         \<or> (\<exists>t \<in> set (sweeps sys).
               0 \<le> last_provider_index (shared sys)
             \<and> last_provider_index (shared sys) < int (length (sw_providers t)))))"

text \<open>
  One request served with nothing else in flight: each awaited call is over before anything
  else happens, with the answer the network gives to the request issued last. The fuel
  bounds the number of calls; a sweep makes at most one per provider.
\<close>

fun solo :: "network \<Rightarrow> nat \<Rightarrow> sweep \<times> state \<Rightarrow> sweep \<times> state" where
  "solo net 0 ts = ts"
| "solo net (Suc fuel) (t, s) =
     (case sw_awaiting t of
        None \<Rightarrow> (t, s)
      | Some provider \<Rightarrow>
          solo net fuel (complete (net (butlast (posts s)) (last (posts s))) t s))"

section \<open>Vocabulary of the specification\<close>

text \<open>
  The definitions of this section follow the words of the specification, not the code; the
  theorems below compare the code with them.
\<close>

text \<open>Strings concatenated in order with a single space between neighbours.\<close>

fun spaced :: "string list \<Rightarrow> string" where
  "spaced [] = []"
| "spaced (t # ts) = (if ts = [] then t else t @ '' '' @ spaced ts)"

text \<open>The text fields of exactly the parts whose type is \<^verbatim>\<open>text\<close>, in their order.\<close>

fun text_parts :: "ContentItem list \<Rightarrow> string list" where
  "text_parts [] = []"
| "text_parts (item # items) =
     (if item_type item = ''text'' then item_text item # text_parts items else text_parts items)"

text \<open>
  The index attempted in step \<open>i\<close> of a sweep over \<open>n\<close> providers: \<open>i\<close> itself in sequential
  mode, \<open>(offset + i) mod n\<close> in round-robin mode.
\<close>

definition computed_index :: "bool \<Rightarrow> int \<Rightarrow> nat \<Rightarrow> nat \<Rightarrow> int" where
  "computed_index use_round_robin offset n i =
     (if use_round_robin then (offset + int i) mod int n else int i)"

definition traversal_indices :: "bool \<Rightarrow> int \<Rightarrow> nat \<Rightarrow> int list" where
  "traversal_indices use_round_robin offset n =
     map (computed_index use_round_robin offset n) [0..<n]"

text \<open>The computed traversal order: the providers at these indices.\<close>

definition traversal :: "Provider list \<Rightarrow> bool \<Rightarrow> int \<Rightarrow> Provider list" where
  "traversal providers use_round_robin offset =
     map (\<lambda>k. providers ! nat k) (traversal_indices use_round_robin offset (length providers))"

text \<open>
  A provider call fails, in the words of the specification, on a transport error or on a
  non-success response, that is an error status or a body that cannot be parsed.
\<close>

definition provider_failure :: "http_outcome \<Rightarrow> bool" where
  "provider_failure outcome =
     (case outcome of
        ConnectFailed \<Rightarrow> True
      | Response status body \<Rightarrow> 400 \<le> status \<or> body = None)"

text \<open>
  The providers whose attempt was announced on standard output (the first line of
  \<^verbatim>\<open>process_request\<close>), and the providers whose failure was printed by the coordinator.
\<close>

fun attempted :: "event list \<Rightarrow> string list" where
  "attempted [] = []"
| "attempted (PrintProvider name # es) = name # attempted es"
| "attempted (e # es) = attempted es"

fun failures :: "event list \<Rightarrow> string list" where
  "failures [] = []"
| "failures (PrintError name e # es) = name # failures es"
| "failures (e # es) = failures es"

section \<open>Example inputs\<close>

text \<open>The registry of the scenario in the specification: two providers for one model.\<close>

definition ex_openai :: Provider where
  "ex_openai = \<lparr> p_provider = ''openai'', p_base_url = ''U1'', p_api = ''K1'',
                 p_model = [''gpt-x''] \<rparr>"

definition ex_anthropic :: Provider where
  "ex_anthropic = \<lparr> p_provider = ''anthropic'', p_base_url = ''U2'', p_api = ''K2'',
                    p_model = [''gpt-x''] \<rparr>"

definition ex_config :: "Provider list" where
  "ex_config = [ex_openai, ex_anthropic]"

text \<open>A buffered request that sets both log-probability fields.\<close>

definition ex_request :: RequestModel where
  "ex_request = \<lparr> model = ''gpt-x'',
                  messages = [\<lparr> role = ''user'', content = Str ''hi'' \<rparr>],
                  logprobs = Some True, top_logprobs = Some 5,
                  stream = Some False, include_usage = Some False \<rparr>"

text \<open>The same request for a model that no provider lists.\<close>

definition ex_unknown :: RequestModel where
  "ex_unknown = ex_request\<lparr> model := ''gpt-y'' \<rparr>"

text \<open>A request body that gives only the two required fields.\<close>

definition ex_body :: inbound where
  "ex_body = \<lparr> in_model = ''gpt-x'',
               in_messages = [\<lparr> role = ''user'', content = Str ''hi'' \<rparr>],
               in_logprobs = Omitted, in_top_logprobs = Omitted,
               in_stream = Omitted, in_include_usage = Omitted \<rparr>"

text \<open>Three networks: nothing reachable; the first call fails and later ones answer; every
  provider answers with status 500 and a well-formed error body.\<close>

definition net_down :: network where
  "net_down hist req = ConnectFailed"

definition net_second_ok :: network where
  "net_second_ok hist req =
     (case hist of [] \<Rightarrow> ConnectFailed
      | _ # _ \<Rightarrow> Response 200 (Some (JObj [(''id'', JStr ''r1'')])))"

definition net_error_status :: network where
  "net_error_status hist req = Response 500 (Some (JObj [(''error'', JStr ''overloaded'')]))"

text \<open>A network whose first answer is a 500 with a well-formed error body and whose later
  answers are a 200.\<close>

definition net_first_500 :: network where
  "net_first_500 hist req =
     (case hist of [] \<Rightarrow> Response 500 (Some (JObj [(''error'', JStr ''overloaded'')]))
      | _ # _ \<Rightarrow> Response 200 (Some (JObj [(''id'', JStr ''r1'')])))"

text \<open>A registry with a third provider, the only one for a second model, and a request for
  that model.\<close>

definition ex_solo :: Provider where
  "ex_solo = \<lparr> p_provider = ''solo'', p_base_url = ''U3'', p_api = ''K3'',
               p_model = [''gpt-z''] \<rparr>"

definition ex_registry :: "Provider list" where
  "ex_registry = [ex_openai, ex_anthropic, ex_solo]"

definition ex_request_z :: RequestModel where
  "ex_request_z = ex_request\<lparr> model := ''gpt-z'' \<rparr>"

text \<open>
  Two requests in flight at once: the request for the one-provider model arrives and waits
  for its provider; the request for the two-provider model arrives, its first provider
  cannot be reached and it goes on to its second; then the first request's provider answers.
\<close>

definition ex_schedule :: "action list" where
  "ex_schedule =
     [Arrive Map.empty ex_request_z,
      Arrive Map.empty ex_request,
      Complete 1 ConnectFailed,
      Complete 0 (Response 200 (Some (JObj [(''id'', JStr ''r1'')])))]"

section \<open>Properties of the translator\<close>

lemma join_spaced: "join '' '' ts = spaced ts"
  by (induction ts rule: induct_list012) auto

lemma text_parts_filter:
  "map item_text (filter (\<lambda>item. item_type item = ''text'') items) = text_parts items"
  by (induction items) auto

text \<open>
  C7. The content of a message that is a list of parts flattens to the text fields of exactly
  the parts of type \<^verbatim>\<open>text\<close>, in their original order, with one space between neighbours.
  The parts \<^verbatim>\<open>text a\<close>, \<^verbatim>\<open>image x\<close>, \<^verbatim>\<open>text b\<close> flatten to \<^verbatim>\<open>a b\<close>, and a content that is
  a plain string is passed through unchanged.
\<close>

theorem flatten_content_text_parts:
  "flatten_content (Parts items) = spaced (text_parts items)
   \<and> flatten_content (Parts [\<lparr>item_type = ''text'', item_text = ''a''\<rparr>,
                             \<lparr>item_type = ''image'', item_text = ''x''\<rparr>,
                             \<lparr>item_type = ''text'', item_text = ''b''\<rparr>]) = ''a b''
   \<and> flatten_content (Str s) = s
   \<and> convert_message \<lparr>role = r, content = Parts items\<rparr> =
       JObj [(''role'', JStr r), (''content'', JStr (spaced (text_parts items)))]"
  by (simp add: flatten_content_def convert_message_def join_spaced text_parts_filter)

text \<open>
  C6. For a provider named \<^verbatim>\<open>anthropic\<close> the payload holds \<^verbatim>\<open>max_tokens = 1000\<close> and has
  neither a \<^verbatim>\<open>logprobs\<close> nor a \<^verbatim>\<open>top_logprobs\<close> field, whatever the request holds in these
  two fields.
\<close>

theorem anthropic_payload:
  assumes "p_provider provider = ''anthropic''"
  shows "build_payload request provider ''max_tokens'' = Some (JInt 1000)
    \<and> ''logprobs'' \<notin> dom (build_payload request provider)
    \<and> ''top_logprobs'' \<notin> dom (build_payload request provider)"
  using assms by (simp add: build_payload_def Let_def dom_def split: option.splits)

theorem anthropic_payload_witness:
  "p_provider ex_anthropic = ''anthropic''
   \<and> logprobs ex_request = Some True \<and> top_logprobs ex_request = Some 5
   \<and> build_payload ex_request ex_anthropic ''max_tokens'' = Some (JInt 1000)
   \<and> ''logprobs'' \<notin> dom (build_payload ex_request ex_anthropic)
   \<and> ''top_logprobs'' \<notin> dom (build_payload ex_request ex_anthropic)"
proof -
  have h: "p_provider ex_anthropic = ''anthropic''" by (simp add: ex_anthropic_def)
  show ?thesis
    using h anthropic_payload [OF h, of ex_request] by (simp add: ex_request_def)
qed

text \<open>
  C5, as the code has it. For a provider not named \<^verbatim>\<open>anthropic\<close> the payload has a
  \<^verbatim>\<open>logprobs\<close> field exactly when the validated request holds a value (not \<^verbatim>\<open>None\<close>) there,
  and likewise for \<^verbatim>\<open>top_logprobs\<close>; it never has \<^verbatim>\<open>max_tokens\<close>. Since \<^verbatim>\<open>logprobs\<close> defaults
  to \<^verbatim>\<open>False\<close>, a body leaves \<^verbatim>\<open>logprobs\<close> out of the payload only by an explicit \<^verbatim>\<open>null\<close>,
  whereas \<^verbatim>\<open>top_logprobs\<close> is in the payload exactly when the body gives a value for it.
\<close>

theorem non_anthropic_payload:
  assumes "p_provider provider \<noteq> ''anthropic''"
  shows "(''logprobs'' \<in> dom (build_payload request provider)) = (logprobs request \<noteq> None)
    \<and> (''top_logprobs'' \<in> dom (build_payload request provider)) = (top_logprobs request \<noteq> None)
    \<and> ''max_tokens'' \<notin> dom (build_payload request provider)
    \<and> (''logprobs'' \<in> dom (build_payload (validate b) provider)) = (in_logprobs b \<noteq> Null)
    \<and> (''top_logprobs'' \<in> dom (build_payload (validate b) provider))
        = (in_top_logprobs b \<noteq> Omitted \<and> in_top_logprobs b \<noteq> Null)"
  using assms
  by (auto simp add: build_payload_def validate_def with_default_def Let_def dom_def
      split: option.splits field.splits)

theorem non_anthropic_payload_witness:
  "p_provider ex_openai \<noteq> ''anthropic''
   \<and> build_payload ex_request ex_openai ''logprobs'' = Some (JBool True)
   \<and> ''logprobs'' \<in> dom (build_payload ex_request ex_openai)
   \<and> ''top_logprobs'' \<in> dom (build_payload ex_request ex_openai)
   \<and> ''max_tokens'' \<notin> dom (build_payload ex_request ex_openai)
   \<and> ''logprobs'' \<in> dom (build_payload (validate ex_body) ex_openai)
   \<and> ''top_logprobs'' \<notin> dom (build_payload (validate ex_body) ex_openai)"
proof -
  have h: "p_provider ex_openai \<noteq> ''anthropic''" by (simp add: ex_openai_def)
  have v: "build_payload ex_request ex_openai ''logprobs'' = Some (JBool True)"
    by (simp add: build_payload_def ex_request_def ex_openai_def)
  show ?thesis
    using h v non_anthropic_payload [OF h, of ex_request ex_body]
    by (simp add: ex_request_def ex_body_def)
qed

text \<open>
  The statement of C5 itself fails: a body that does not mention \<^verbatim>\<open>logprobs\<close> still yields a
  payload with \<^verbatim>\<open>logprobs = false\<close> for a provider that is not \<^verbatim>\<open>anthropic\<close>.
\<close>

theorem omitted_logprobs_in_payload:
  "in_logprobs ex_body = Omitted
   \<and> p_provider ex_openai \<noteq> ''anthropic''
   \<and> build_payload (validate ex_body) ex_openai ''logprobs'' = Some (JBool False)"
  by (simp add: ex_body_def ex_openai_def build_payload_def validate_def with_default_def)

section \<open>Requests that match no provider\<close>

text \<open>
  C1. When no provider of the registry lists the requested model, the request fails with
  the 404 \<^verbatim>\<open>No matching model found\<close>, whatever the registry holds. The matching providers
  are the providers that list the model, in registry order.
\<close>

theorem request_model_not_found:
  assumes "\<forall>p \<in> set config. model request \<notin> set (p_model p)"
  shows "fst (request_model config environ net request token s)
           = Inl (HTTPException 404 ''No matching model found'')
    \<and> get_matching_providers config (model request) = []
    \<and> subseq (get_matching_providers registry model_name) registry
    \<and> set (get_matching_providers registry model_name)
        = {p \<in> set registry. model_name \<in> set (p_model p)}"
  using assms
  by (auto simp add: request_model_def get_matching_providers_def Let_def filter_empty_conv)

theorem request_model_not_found_witness:
  "model ex_unknown \<notin> set (p_model ex_openai)
   \<and> model ex_unknown \<notin> set (p_model ex_anthropic)
   \<and> fst (request_model ex_config Map.empty net_down ex_unknown ''sk-1'' init)
       = Inl (HTTPException 404 ''No matching model found'')"
proof -
  have h: "\<forall>p \<in> set ex_config. model ex_unknown \<notin> set (p_model p)"
    by (simp add: ex_config_def ex_unknown_def ex_request_def ex_openai_def ex_anthropic_def)
  show ?thesis
    using h request_model_not_found [OF h, of Map.empty net_down "''sk-1''" init]
    by (simp add: ex_config_def)
qed

text \<open>
  C10. Such a request raises before any provider is tried: the cursor keeps its value, no
  request is issued and no attempt is announced; the only output is the (empty) list of
  matching providers.
\<close>

theorem not_found_leaves_cursor:
  assumes "\<forall>p \<in> set config. model request \<notin> set (p_model p)"
  shows "last_provider_index (snd (request_model config environ net request token s))
           = last_provider_index s
    \<and> posts (snd (request_model config environ net request token s)) = posts s
    \<and> stdout (snd (request_model config environ net request token s))
        = stdout s @ [PrintMatching []]"
  using assms
  by (simp add: request_model_def get_matching_providers_def Let_def filter_empty_conv)

theorem not_found_leaves_cursor_witness:
  "model ex_unknown \<notin> set (p_model ex_openai)
   \<and> model ex_unknown \<notin> set (p_model ex_anthropic)
   \<and> last_provider_index (snd (request_model ex_config Map.empty net_down ex_unknown ''sk-1'' init))
       = - 1"
proof -
  have h: "\<forall>p \<in> set ex_config. model ex_unknown \<notin> set (p_model p)"
    by (simp add: ex_config_def ex_unknown_def ex_request_def ex_openai_def ex_anthropic_def)
  show ?thesis
    using h not_found_leaves_cursor [OF h, of Map.empty net_down "''sk-1''" init]
    by (simp add: init_def ex_config_def)
qed

section \<open>The failover sweep\<close>

text \<open>
  Standard output and the list of issued requests only grow; the two projections below
  distribute over the growth.
\<close>

lemma attempted_append: "attempted (xs @ ys) = attempted xs @ attempted ys"
  by (induction xs rule: attempted.induct) auto

lemma failures_append: "failures (xs @ ys) = failures xs @ failures ys"
  by (induction xs rule: failures.induct) auto

lemma issued_Nil: "issued r [] = []"
  by (simp add: issued_def)

lemma process_request_fail:
  assumes "attempt_raises net r (posts s) p"
  shows "\<exists>e. process_request net r p s =
           (Inl e, s\<lparr>stdout := stdout s @ [PrintProvider (p_provider p)],
                     posts := posts s @ issued r [p]\<rparr>)
         \<and> (e = TransportError \<or> e = JSONDecodeError)"
  using assms
  by (auto simp: attempt_raises_def process_request_def fetch_response_def issued_def Let_def
      split: http_outcome.splits option.splits)

lemma process_request_ok:
  assumes "\<not> attempt_raises net r (posts s) p"
  shows "\<exists>resp. process_request net r p s =
           (Inr resp, s\<lparr>stdout := stdout s @ [PrintProvider (p_provider p)],
                        posts := posts s @ issued r [p]\<rparr>)"
  using assms
  by (auto simp: attempt_raises_def process_request_def fetch_response_def issued_def Let_def
      split: http_outcome.splits option.splits)

lemma computed_index_range: "i < n \<Longrightarrow> 0 \<le> computed_index rr start n i \<and> computed_index rr start n i < int n"
  by (simp add: computed_index_def)

lemma next_index_computed: "i < n \<Longrightarrow> next_index rr start n i = Inr (computed_index rr start n i)"
  by (auto simp: next_index_def computed_index_def py_mod_def)

lemma py_index_in_range: "0 \<le> k \<Longrightarrow> k < int (length xs) \<Longrightarrow> py_index xs k = Inr (xs ! nat k)"
  by (simp add: py_index_def Let_def)

lemma try_loop_step:
  assumes "i < length providers"
  shows "try_loop net r providers rr start (i # rest) s =
    (case process_request net r (providers ! nat (computed_index rr start (length providers) i))
            (s\<lparr>last_provider_index := computed_index rr start (length providers) i\<rparr>) of
       (Inr response, s2) \<Rightarrow> (Inr response, s2)
     | (Inl e, s2) \<Rightarrow>
         try_loop net r providers rr start rest
           (s2\<lparr>stdout := stdout s2 @
              [PrintError (p_provider (providers ! nat (computed_index rr start (length providers) i))) e]\<rparr>))"
  using assms computed_index_range[OF assms, of rr start]
  by (simp add: next_index_computed py_index_in_range)

lemma try_loop_all_fail:
  assumes "\<forall>i \<in> set js. i < length providers"
    and "all_attempts_raise net r (posts s)
           (map (\<lambda>i. providers ! nat (computed_index rr start (length providers) i)) js)"
  shows "\<exists>s'. try_loop net r providers rr start js s =
                 (Inl (HTTPException 500 ''All providers failed''), s')
      \<and> posts s' = posts s @ issued r (map (\<lambda>i. providers ! nat (computed_index rr start (length providers) i)) js)
      \<and> attempted (stdout s') = attempted (stdout s) @
           map (\<lambda>i. p_provider (providers ! nat (computed_index rr start (length providers) i))) js
      \<and> failures (stdout s') = failures (stdout s) @
           map (\<lambda>i. p_provider (providers ! nat (computed_index rr start (length providers) i))) js
      \<and> last_provider_index s' =
           (if js = [] then last_provider_index s else computed_index rr start (length providers) (last js))"
  using assms
proof (induction js arbitrary: s)
  case Nil
  then show ?case by (simp add: issued_Nil)
next
  case (Cons i js)
  let ?k = "computed_index rr start (length providers) i"
  let ?p = "providers ! nat ?k"
  let ?s1 = "s\<lparr>last_provider_index := ?k\<rparr>"
  from Cons.prems have i: "i < length providers" by simp
  from Cons.prems have f: "attempt_raises net r (posts ?s1) ?p" by simp
  from process_request_fail[OF f] obtain e where
    pr: "process_request net r ?p ?s1 =
           (Inl e, ?s1\<lparr>stdout := stdout ?s1 @ [PrintProvider (p_provider ?p)],
                      posts := posts ?s1 @ issued r [?p]\<rparr>)" by blast
  let ?s3 = "?s1\<lparr>stdout := stdout ?s1 @ [PrintProvider (p_provider ?p)],
                 posts := posts ?s1 @ issued r [?p],
                 stdout := (stdout ?s1 @ [PrintProvider (p_provider ?p)]) @ [PrintError (p_provider ?p) e]\<rparr>"
  have step: "try_loop net r providers rr start (i # js) s = try_loop net r providers rr start js ?s3"
    by (subst try_loop_step[OF i]) (simp add: pr)
  have a: "\<forall>i \<in> set js. i < length providers" using Cons.prems by simp
  have b: "all_attempts_raise net r (posts ?s3)
             (map (\<lambda>i. providers ! nat (computed_index rr start (length providers) i)) js)"
    using Cons.prems by simp
  from Cons.IH[OF a b] obtain s' where
    IH: "try_loop net r providers rr start js ?s3 = (Inl (HTTPException 500 ''All providers failed''), s')"
      "posts s' = posts ?s3 @ issued r (map (\<lambda>i. providers ! nat (computed_index rr start (length providers) i)) js)"
      "attempted (stdout s') = attempted (stdout ?s3) @
           map (\<lambda>i. p_provider (providers ! nat (computed_index rr start (length providers) i))) js"
      "failures (stdout s') = failures (stdout ?s3) @
           map (\<lambda>i. p_provider (providers ! nat (computed_index rr start (length providers) i))) js"
      "last_provider_index s' =
           (if js = [] then last_provider_index ?s3 else computed_index rr start (length providers) (last js))"
    by blast
  have s3: "posts ?s3 = posts s @ issued r [?p]"
    "attempted (stdout ?s3) = attempted (stdout s) @ [p_provider ?p]"
    "failures (stdout ?s3) = failures (stdout s) @ [p_provider ?p]"
    "last_provider_index ?s3 = ?k"
    by (simp_all add: attempted_append failures_append)
  have c1: "try_loop net r providers rr start (i # js) s =
      (Inl (HTTPException 500 ''All providers failed''), s')"
    using step IH(1) by (rule trans)
  have c2: "posts s' = posts s @ issued r (map (\<lambda>i. providers ! nat (computed_index rr start (length providers) i)) (i # js))"
    unfolding IH(2) s3(1) by (simp add: issued_def)
  have c3: "attempted (stdout s') = attempted (stdout s) @
           map (\<lambda>i. p_provider (providers ! nat (computed_index rr start (length providers) i))) (i # js)"
    unfolding IH(3) s3(2) by simp
  have c4: "failures (stdout s') = failures (stdout s) @
           map (\<lambda>i. p_provider (providers ! nat (computed_index rr start (length providers) i))) (i # js)"
    unfolding IH(4) s3(3) by simp
  have c5: "last_provider_index s' = computed_index rr start (length providers) (last (i # js))"
    unfolding IH(5) s3(4) by simp
  from c1 c2 c3 c4 c5 show ?case by (intro exI[of _ s'] conjI) simp_all
qed

text \<open>
  From here on the loop is unfolded only through \<open>try_loop_step\<close>, one iteration at a time.
\<close>

declare try_loop.simps(2) [simp del]

lemma try_loop_first_success:
  assumes "\<forall>i \<in> set js. i < length providers"
    and "k < length js"
    and "all_attempts_raise net r (posts s)
           (map (\<lambda>i. providers ! nat (computed_index rr start (length providers) i)) (take k js))"
    and "\<not> attempt_raises net r
           (posts s @ issued r (map (\<lambda>i. providers ! nat (computed_index rr start (length providers) i)) (take k js)))
           (providers ! nat (computed_index rr start (length providers) (js ! k)))"
  shows "\<exists>sk. try_loop net r providers rr start js s =
                 process_request net r (providers ! nat (computed_index rr start (length providers) (js ! k))) sk
      \<and> last_provider_index sk = computed_index rr start (length providers) (js ! k)
      \<and> posts sk = posts s @ issued r (map (\<lambda>i. providers ! nat (computed_index rr start (length providers) i)) (take k js))
      \<and> attempted (stdout sk) = attempted (stdout s) @
           map (\<lambda>i. p_provider (providers ! nat (computed_index rr start (length providers) i))) (take k js)
      \<and> failures (stdout sk) = failures (stdout s) @
           map (\<lambda>i. p_provider (providers ! nat (computed_index rr start (length providers) i))) (take k js)"
  using assms
proof (induction js arbitrary: s k)
  case Nil
  then show ?case by simp
next
  case (Cons i js)
  let ?k = "computed_index rr start (length providers) i"
  let ?p = "providers ! nat ?k"
  let ?s1 = "s\<lparr>last_provider_index := ?k\<rparr>"
  from Cons.prems have i: "i < length providers" by simp
  show ?case
  proof (cases k)
    case 0
    with Cons.prems have ok: "\<not> attempt_raises net r (posts ?s1) ?p" by (simp add: issued_Nil)
    from process_request_ok[OF ok] obtain resp s2 where
      pr: "process_request net r ?p ?s1 = (Inr resp, s2)" by blast
    have "try_loop net r providers rr start (i # js) s = process_request net r ?p ?s1"
      by (subst try_loop_step[OF i]) (simp add: pr)
    with 0 show ?thesis
      by (intro exI[of _ ?s1]) (simp add: issued_Nil)
  next
    case (Suc k')
    with Cons.prems have f: "attempt_raises net r (posts ?s1) ?p" by simp
    from process_request_fail[OF f] obtain e where
      pr: "process_request net r ?p ?s1 =
             (Inl e, ?s1\<lparr>stdout := stdout ?s1 @ [PrintProvider (p_provider ?p)],
                        posts := posts ?s1 @ issued r [?p]\<rparr>)" by blast
    let ?s3 = "?s1\<lparr>stdout := stdout ?s1 @ [PrintProvider (p_provider ?p)],
                   posts := posts ?s1 @ issued r [?p],
                   stdout := (stdout ?s1 @ [PrintProvider (p_provider ?p)]) @ [PrintError (p_provider ?p) e]\<rparr>"
    have step: "try_loop net r providers rr start (i # js) s = try_loop net r providers rr start js ?s3"
      by (subst try_loop_step[OF i]) (simp add: pr)
    have s3: "posts ?s3 = posts s @ issued r [?p]"
      "attempted (stdout ?s3) = attempted (stdout s) @ [p_provider ?p]"
      "failures (stdout ?s3) = failures (stdout s) @ [p_provider ?p]"
      by (simp_all add: attempted_append failures_append)
    have a: "\<forall>i \<in> set js. i < length providers" using Cons.prems by simp
    have b: "k' < length js" using Cons.prems Suc by simp
    have c: "all_attempts_raise net r (posts ?s3)
               (map (\<lambda>i. providers ! nat (computed_index rr start (length providers) i)) (take k' js))"
      using Cons.prems Suc by simp
    have iss: "issued r (map (\<lambda>i. providers ! nat (computed_index rr start (length providers) i)) (take k (i # js)))
        = issued r [?p] @ issued r (map (\<lambda>i. providers ! nat (computed_index rr start (length providers) i)) (take k' js))"
      using Suc by (simp add: issued_def)
    have d: "\<not> attempt_raises net r
           (posts ?s3 @ issued r (map (\<lambda>i. providers ! nat (computed_index rr start (length providers) i)) (take k' js)))
           (providers ! nat (computed_index rr start (length providers) (js ! k')))"
      using Cons.prems(4) Suc unfolding iss s3(1) by simp
    from Cons.IH[OF a b c d] obtain sk where
      IH: "try_loop net r providers rr start js ?s3 =
                 process_request net r (providers ! nat (computed_index rr start (length providers) (js ! k'))) sk"
        "last_provider_index sk = computed_index rr start (length providers) (js ! k')"
        "posts sk = posts ?s3 @ issued r (map (\<lambda>i. providers ! nat (computed_index rr start (length providers) i)) (take k' js))"
        "attempted (stdout sk) = attempted (stdout ?s3) @
           map (\<lambda>i. p_provider (providers ! nat (computed_index rr start (length providers) i))) (take k' js)"
        "failures (stdout sk) = failures (stdout ?s3) @
           map (\<lambda>i. p_provider (providers ! nat (computed_index rr start (length providers) i))) (take k' js)"
      by blast
    have c1: "try_loop net r providers rr start (i # js) s =
        process_request net r (providers ! nat (computed_index rr start (length providers) ((i # js) ! k))) sk"
      using step IH(1) Suc by simp
    have c2: "last_provider_index sk = computed_index rr start (length providers) ((i # js) ! k)"
      using IH(2) Suc by simp
    have c3: "posts sk = posts s @ issued r (map (\<lambda>i. providers ! nat (computed_index rr start (length providers) i)) (take k (i # js)))"
      unfolding IH(3) s3(1) iss by simp
    have c4: "attempted (stdout sk) = attempted (stdout s) @
           map (\<lambda>i. p_provider (providers ! nat (computed_index rr start (length providers) i))) (take k (i # js))"
      unfolding IH(4) s3(2) using Suc by simp
    have c5: "failures (stdout sk) = failures (stdout s) @
           map (\<lambda>i. p_provider (providers ! nat (computed_index rr start (length providers) i))) (take k (i # js))"
      unfolding IH(5) s3(3) using Suc by simp
    from c1 c2 c3 c4 c5 show ?thesis by (intro exI[of _ sk] conjI)
  qed
qed

lemma fail_or_first_success:
  "all_attempts_raise net r hist ps \<or>
   (\<exists>k<length ps. all_attempts_raise net r hist (take k ps) \<and>
      \<not> attempt_raises net r (hist @ issued r (take k ps)) (ps ! k))"
proof (induction ps arbitrary: hist)
  case Nil
  then show ?case by simp
next
  case (Cons p ps)
  show ?case
  proof (cases "attempt_raises net r hist p")
    case False
    then have "all_attempts_raise net r hist (take 0 (p # ps)) \<and>
      \<not> attempt_raises net r (hist @ issued r (take 0 (p # ps))) ((p # ps) ! 0)"
      by (simp add: issued_Nil)
    then show ?thesis by blast
  next
    case True
    from Cons.IH[of "hist @ issued r [p]"] show ?thesis
    proof
      assume "all_attempts_raise net r (hist @ issued r [p]) ps"
      with True show ?thesis by simp
    next
      assume "\<exists>k<length ps. all_attempts_raise net r (hist @ issued r [p]) (take k ps) \<and>
        \<not> attempt_raises net r ((hist @ issued r [p]) @ issued r (take k ps)) (ps ! k)"
      then obtain k where k: "k < length ps"
        "all_attempts_raise net r (hist @ issued r [p]) (take k ps)"
        "\<not> attempt_raises net r ((hist @ issued r [p]) @ issued r (take k ps)) (ps ! k)" by blast
      have iss: "issued r (take (Suc k) (p # ps)) = issued r [p] @ issued r (take k ps)"
        by (simp add: issued_def)
      have "Suc k < length (p # ps) \<and> all_attempts_raise net r hist (take (Suc k) (p # ps)) \<and>
        \<not> attempt_raises net r (hist @ issued r (take (Suc k) (p # ps))) ((p # ps) ! Suc k)"
        unfolding iss using k True by simp
      then show ?thesis by blast
    qed
  qed
qed

lemma idx_mod_nat:
  assumes "i < n"
  shows "nat ((offset + int i) mod int n) = (nat (offset mod int n) + i) mod n"
proof -
  have n: "0 < int n" using assms by simp
  have "(offset + int i) mod int n = (offset mod int n + int i) mod int n"
    by (simp add: mod_add_left_eq)
  also have "offset mod int n = int (nat (offset mod int n))"
    using n by simp
  also have "(int (nat (offset mod int n)) + int i) mod int n = int ((nat (offset mod int n) + i) mod n)"
    by (simp add: zmod_int)
  finally show ?thesis by simp
qed

lemma traversal_round_robin:
  "traversal providers True offset = rotate (nat (offset mod int (length providers))) providers"
  by (rule nth_equalityI)
     (simp_all add: traversal_def traversal_indices_def computed_index_def nth_rotate idx_mod_nat)

lemma traversal_sequential: "traversal providers False offset = providers"
  by (rule nth_equalityI) (simp_all add: traversal_def traversal_indices_def computed_index_def)

lemma computed_index_start:
  "computed_index rr (if rr then c else 0) n = computed_index rr c n"
  by (rule ext) (simp add: computed_index_def)

lemma traversal_upt:
  "map (\<lambda>i. providers ! nat (computed_index rr c (length providers) i)) [0..<length providers]
     = traversal providers rr c"
  by (simp add: traversal_def traversal_indices_def)

lemma traversal_take:
  "map (\<lambda>i. providers ! nat (computed_index rr c (length providers) i)) (take k [0..<length providers])
     = take k (traversal providers rr c)"
  by (simp add: traversal_def traversal_indices_def take_map)

lemma traversal_nth:
  "k < length providers \<Longrightarrow>
   providers ! nat (computed_index rr c (length providers) ([0..<length providers] ! k))
     = traversal providers rr c ! k"
  by (simp add: traversal_def traversal_indices_def)

lemma traversal_length: "length (traversal providers rr c) = length providers"
  by (simp add: traversal_def traversal_indices_def)

lemma traversal_indices_nth:
  "k < n \<Longrightarrow> traversal_indices rr c n ! k = computed_index rr c n k"
  by (simp add: traversal_indices_def)

lemma sweep_all_fail:
  assumes "all_attempts_raise net r (posts s) (traversal providers rr (last_provider_index s))"
  shows "\<exists>s'. try_all_providers net r providers rr s =
                 (Inl (HTTPException 500 ''All providers failed''), s')
      \<and> posts s' = posts s @ issued r (traversal providers rr (last_provider_index s))
      \<and> attempted (stdout s') = attempted (stdout s) @
           map p_provider (traversal providers rr (last_provider_index s))
      \<and> failures (stdout s') = failures (stdout s) @
           map p_provider (traversal providers rr (last_provider_index s))
      \<and> last_provider_index s' =
           (if providers = [] then last_provider_index s
            else computed_index rr (last_provider_index s) (length providers) (length providers - 1))"
proof -
  let ?c = "last_provider_index s"
  let ?n = "length providers"
  have a: "\<forall>i \<in> set [0..<?n]. i < ?n" by simp
  have b: "all_attempts_raise net r (posts s)
      (map (\<lambda>i. providers ! nat (computed_index rr (if rr then ?c else 0) ?n i)) [0..<?n])"
    unfolding computed_index_start traversal_upt using assms .
  have l: "[0..<?n] \<noteq> [] \<Longrightarrow> last [0..<?n] = ?n - 1"
    by (cases ?n) simp_all
  have names: "map (\<lambda>i. p_provider (providers ! nat (computed_index rr ?c ?n i))) [0..<?n]
      = map p_provider (traversal providers rr ?c)"
    unfolding traversal_upt[symmetric] by simp
  from try_loop_all_fail[OF a b] obtain s' where
    r: "try_loop net r providers rr (if rr then ?c else 0) [0..<?n] s =
          (Inl (HTTPException 500 ''All providers failed''), s')"
      "posts s' = posts s @ issued r (traversal providers rr ?c)"
      "attempted (stdout s') = attempted (stdout s) @ map p_provider (traversal providers rr ?c)"
      "failures (stdout s') = failures (stdout s) @ map p_provider (traversal providers rr ?c)"
      "last_provider_index s' =
         (if [0..<?n] = [] then ?c else computed_index rr ?c ?n (last [0..<?n]))"
    unfolding computed_index_start traversal_upt names by blast
  have c1: "try_all_providers net r providers rr s =
      (Inl (HTTPException 500 ''All providers failed''), s')"
    unfolding try_all_providers_def Let_def using r(1) .
  have c5: "last_provider_index s' =
      (if providers = [] then ?c else computed_index rr ?c ?n (?n - 1))"
    unfolding r(5) using l by simp
  from c1 r(2) r(3) r(4) c5 show ?thesis by (intro exI[of _ s'] conjI)
qed

lemma sweep_first_success:
  assumes "k < length providers"
    and "all_attempts_raise net r (posts s) (take k (traversal providers rr (last_provider_index s)))"
    and "\<not> attempt_raises net r
           (posts s @ issued r (take k (traversal providers rr (last_provider_index s))))
           (traversal providers rr (last_provider_index s) ! k)"
  shows "\<exists>sk. try_all_providers net r providers rr s =
                 process_request net r (traversal providers rr (last_provider_index s) ! k) sk
      \<and> last_provider_index sk = computed_index rr (last_provider_index s) (length providers) k
      \<and> posts sk = posts s @ issued r (take k (traversal providers rr (last_provider_index s)))
      \<and> attempted (stdout sk) = attempted (stdout s) @
           map p_provider (take k (traversal providers rr (last_provider_index s)))
      \<and> failures (stdout sk) = failures (stdout s) @
           map p_provider (take k (traversal providers rr (last_provider_index s)))"
proof -
  let ?c = "last_provider_index s"
  let ?n = "length providers"
  have a: "\<forall>i \<in> set [0..<?n]. i < ?n" by simp
  have k: "k < length [0..<?n]" using assms(1) by simp
  have b: "all_attempts_raise net r (posts s)
      (map (\<lambda>i. providers ! nat (computed_index rr (if rr then ?c else 0) ?n i)) (take k [0..<?n]))"
    unfolding computed_index_start traversal_take using assms(2) .
  have c: "\<not> attempt_raises net r
      (posts s @ issued r (map (\<lambda>i. providers ! nat (computed_index rr (if rr then ?c else 0) ?n i)) (take k [0..<?n])))
      (providers ! nat (computed_index rr (if rr then ?c else 0) ?n ([0..<?n] ! k)))"
    unfolding computed_index_start traversal_take traversal_nth[OF assms(1)] using assms(3) .
  have nk: "[0..<?n] ! k = k" using assms(1) by simp
  have names: "map (\<lambda>i. p_provider (providers ! nat (computed_index rr ?c ?n i))) (take k [0..<?n])
      = map p_provider (take k (traversal providers rr ?c))"
    unfolding traversal_take[symmetric] by simp
  from try_loop_first_success[OF a k b c] obtain sk where
    r: "try_loop net r providers rr (if rr then ?c else 0) [0..<?n] s =
          process_request net r (traversal providers rr ?c ! k) sk"
      "last_provider_index sk = computed_index rr ?c ?n k"
      "posts sk = posts s @ issued r (take k (traversal providers rr ?c))"
      "attempted (stdout sk) = attempted (stdout s) @ map p_provider (take k (traversal providers rr ?c))"
      "failures (stdout sk) = failures (stdout s) @ map p_provider (take k (traversal providers rr ?c))"
    unfolding computed_index_start traversal_take names traversal_nth[OF assms(1)]
    unfolding nk by blast
  have c1: "try_all_providers net r providers rr s =
      process_request net r (traversal providers rr ?c ! k) sk"
    unfolding try_all_providers_def Let_def using r(1) .
  from c1 r(2) r(3) r(4) r(5) show ?thesis by (intro exI[of _ sk] conjI)
qed

lemma process_request_effect:
  "snd (process_request net r p s) =
     s\<lparr>stdout := stdout s @ [PrintProvider (p_provider p)], posts := posts s @ issued r [p]\<rparr>"
  using process_request_fail[of net r s p] process_request_ok[of net r s p]
  by (cases "attempt_raises net r (posts s) p") auto

lemma process_request_isl:
  "isl (fst (process_request net r p s)) = attempt_raises net r (posts s) p"
  using process_request_fail[of net r s p] process_request_ok[of net r s p]
  by (cases "attempt_raises net r (posts s) p") auto

lemma all_attempts_raise_buffered:
  "all_attempts_raise net r hist ps \<Longrightarrow> ps \<noteq> [] \<Longrightarrow> stream r \<noteq> Some True"
  by (cases ps) (simp_all add: attempt_raises_def)

lemma take_Suc_issued:
  "k < length ps \<Longrightarrow> issued r (take k ps) @ issued r [ps ! k] = issued r (take (Suc k) ps)"
  by (simp add: issued_def take_Suc_conv_app_nth)

lemma all_attempts_raise_take:
  "all_attempts_raise net r hist ps \<Longrightarrow> all_attempts_raise net r hist (take k ps)"
proof (induction ps arbitrary: hist k)
  case Nil
  then show ?case by simp
next
  case (Cons p ps)
  then show ?case by (cases k) simp_all
qed

lemma sweep_general:
  assumes "providers \<noteq> []"
  shows "\<exists>m<length providers.
      last_provider_index (snd (try_all_providers net r providers rr s))
        = computed_index rr (last_provider_index s) (length providers) m
    \<and> attempted (stdout (snd (try_all_providers net r providers rr s)))
        = attempted (stdout s) @
          map p_provider (take (Suc m) (traversal providers rr (last_provider_index s)))
    \<and> posts (snd (try_all_providers net r providers rr s))
        = posts s @ issued r (take (Suc m) (traversal providers rr (last_provider_index s)))
    \<and> failures (stdout (snd (try_all_providers net r providers rr s)))
        = failures (stdout s) @
          map p_provider
            (take (if isl (fst (try_all_providers net r providers rr s)) then Suc m else m)
               (traversal providers rr (last_provider_index s)))
    \<and> all_attempts_raise net r (posts s) (take m (traversal providers rr (last_provider_index s)))
    \<and> (if isl (fst (try_all_providers net r providers rr s))
        then fst (try_all_providers net r providers rr s)
               = Inl (HTTPException 500 ''All providers failed'')
             \<and> Suc m = length providers
        else \<not> attempt_raises net r
               (posts s @ issued r (take m (traversal providers rr (last_provider_index s))))
               (traversal providers rr (last_provider_index s) ! m))"
proof -
  let ?c = "last_provider_index s"
  let ?n = "length providers"
  let ?t = "traversal providers rr ?c"
  let ?R = "try_all_providers net r providers rr s"
  have n: "0 < ?n" using assms by simp
  have lt: "length ?t = ?n" by (rule traversal_length)
  from fail_or_first_success[of net r "posts s" ?t] show ?thesis
  proof
    assume af: "all_attempts_raise net r (posts s) ?t"
    from sweep_all_fail[OF af] obtain s' where
      r: "?R = (Inl (HTTPException 500 ''All providers failed''), s')"
        "posts s' = posts s @ issued r ?t"
        "attempted (stdout s') = attempted (stdout s) @ map p_provider ?t"
        "failures (stdout s') = failures (stdout s) @ map p_provider ?t"
        "last_provider_index s' =
           (if providers = [] then ?c else computed_index rr ?c ?n (?n - 1))"
      by blast
    have tk: "take (Suc (?n - 1)) ?t = ?t" using lt n by simp
    have "?n - 1 < ?n" using n by simp
    moreover have "last_provider_index (snd ?R) = computed_index rr ?c ?n (?n - 1)"
      using r(1) r(5) assms by simp
    moreover have "attempted (stdout (snd ?R)) = attempted (stdout s) @ map p_provider (take (Suc (?n - 1)) ?t)"
      unfolding tk using r(1) r(3) by simp
    moreover have "posts (snd ?R) = posts s @ issued r (take (Suc (?n - 1)) ?t)"
      unfolding tk using r(1) r(2) by simp
    moreover have "failures (stdout (snd ?R)) = failures (stdout s) @
        map p_provider (take (if isl (fst ?R) then Suc (?n - 1) else ?n - 1) ?t)"
      using r(1) r(4) tk by simp
    moreover have "all_attempts_raise net r (posts s) (take (?n - 1) ?t)"
      using af by (rule all_attempts_raise_take)
    moreover have "(if isl (fst ?R)
        then fst ?R = Inl (HTTPException 500 ''All providers failed'') \<and> Suc (?n - 1) = ?n
        else \<not> attempt_raises net r (posts s @ issued r (take (?n - 1) ?t)) (?t ! (?n - 1)))"
      using r(1) n by simp
    ultimately show ?thesis by (intro exI[of _ "?n - 1"] conjI)
  next
    assume "\<exists>k<length ?t. all_attempts_raise net r (posts s) (take k ?t) \<and>
      \<not> attempt_raises net r (posts s @ issued r (take k ?t)) (?t ! k)"
    then obtain k where k: "k < ?n" "all_attempts_raise net r (posts s) (take k ?t)"
      "\<not> attempt_raises net r (posts s @ issued r (take k ?t)) (?t ! k)"
      unfolding lt by blast
    from sweep_first_success[OF k] obtain sk where
      r: "?R = process_request net r (?t ! k) sk"
        "last_provider_index sk = computed_index rr ?c ?n k"
        "posts sk = posts s @ issued r (take k ?t)"
        "attempted (stdout sk) = attempted (stdout s) @ map p_provider (take k ?t)"
        "failures (stdout sk) = failures (stdout s) @ map p_provider (take k ?t)"
      by blast
    have ok: "\<not> attempt_raises net r (posts sk) (?t ! k)" using k(3) r(3) by simp
    have nl: "\<not> isl (fst ?R)" unfolding r(1) process_request_isl using ok .
    have sn: "snd ?R = sk\<lparr>stdout := stdout sk @ [PrintProvider (p_provider (?t ! k))],
                            posts := posts sk @ issued r [?t ! k]\<rparr>"
      unfolding r(1) by (rule process_request_effect)
    have kt: "k < length ?t" using k(1) lt by simp
    have c1: "last_provider_index (snd ?R) = computed_index rr ?c ?n k"
      unfolding sn using r(2) by simp
    have c2: "attempted (stdout (snd ?R)) = attempted (stdout s) @ map p_provider (take (Suc k) ?t)"
      unfolding sn using r(4) kt by (simp add: attempted_append take_Suc_conv_app_nth)
    have c3: "posts (snd ?R) = posts s @ issued r (take (Suc k) ?t)"
      unfolding sn using r(3) take_Suc_issued[OF kt, of r] by simp
    have c4: "failures (stdout (snd ?R)) = failures (stdout s) @
        map p_provider (take (if isl (fst ?R) then Suc k else k) ?t)"
      unfolding sn using r(5) nl by (simp add: failures_append)
    have c6: "(if isl (fst ?R)
        then fst ?R = Inl (HTTPException 500 ''All providers failed'') \<and> Suc k = ?n
        else \<not> attempt_raises net r (posts s @ issued r (take k ?t)) (?t ! k))"
      using nl k(3) by simp
    from k(1) c1 c2 c3 c4 k(2) c6 show ?thesis by (intro exI[of _ k] conjI)
  qed
qed

lemma request_model_sweep:
  assumes "get_matching_providers config (model request) \<noteq> []"
  shows "request_model config environ net request token s =
     try_all_providers net request (get_matching_providers config (model request))
       (use_round_robin_of environ)
       (s\<lparr>stdout := stdout s @ [PrintMatching (get_matching_providers config (model request))]\<rparr>)"
  using assms by (simp add: request_model_def Let_def)

section \<open>Outcome of a sweep\<close>

lemma ex_matching: "get_matching_providers ex_config (model ex_request) = ex_config"
  by (simp add: get_matching_providers_def ex_config_def ex_request_def ex_openai_def
      ex_anthropic_def)

lemma ex_round_robin: "use_round_robin_of [''USE_ROUND_ROBIN'' \<mapsto> ''True''] = True"
  by (simp add: use_round_robin_of_def lower_def lower_char_def)

lemma ex_rotation: "traversal ex_config True (- 1) = [ex_anthropic, ex_openai]"
  by (simp add: traversal_round_robin ex_config_def)

lemma ex_order: "traversal ex_config False c = [ex_openai, ex_anthropic]"
  by (simp add: traversal_sequential ex_config_def)

lemma ex_buffered: "stream ex_request \<noteq> Some True"
  by (simp add: ex_request_def)

text \<open>
  C2, as the code has it. A request whose model matches \<open>n \<ge> 1\<close> providers, each of whose
  calls raises (the request is buffered and \<^verbatim>\<open>client.post\<close> raises or the body does not
  parse), fails with the 500 \<^verbatim>\<open>All providers failed\<close>. The requests issued, the attempts
  announced and the failures printed are those of the computed traversal order, each
  provider once: positions \<open>0\<close> to \<open>n - 1\<close> in sequential mode, \<open>(offset + i) mod n\<close> in
  round-robin mode, which is a rotation of the matching list.
\<close>

theorem all_providers_failed:
  assumes "get_matching_providers config (model request) = matching"
    and "matching \<noteq> []"
    and "use_round_robin_of environ = rr"
    and "all_attempts_raise net request (posts s) (traversal matching rr (last_provider_index s))"
  shows "\<exists>s'. request_model config environ net request token s
                 = (Inl (HTTPException 500 ''All providers failed''), s')
      \<and> posts s' = posts s @
           map (build_request request) (traversal matching rr (last_provider_index s))
      \<and> attempted (stdout s') = attempted (stdout s) @
           map p_provider (traversal matching rr (last_provider_index s))
      \<and> failures (stdout s') = failures (stdout s) @
           map p_provider (traversal matching rr (last_provider_index s))
      \<and> traversal matching rr (last_provider_index s)
          = map (\<lambda>i. matching ! nat (if rr then (last_provider_index s + int i) mod int (length matching)
                                      else int i)) [0..<length matching]
      \<and> traversal matching rr (last_provider_index s)
          = (if rr then rotate (nat (last_provider_index s mod int (length matching))) matching
             else matching)"
proof -
  let ?s1 = "s\<lparr>stdout := stdout s @ [PrintMatching matching]\<rparr>"
  let ?t = "traversal matching rr (last_provider_index s)"
  have rm: "request_model config environ net request token s
      = try_all_providers net request matching rr ?s1"
    using request_model_sweep[of config request environ net token s] assms(1,2,3) by simp
  have af: "all_attempts_raise net request (posts ?s1) (traversal matching rr (last_provider_index ?s1))"
    using assms(4) by simp
  have tne: "?t \<noteq> []" using assms(2) traversal_length[of matching rr "last_provider_index s"]
    by auto
  have buffered: "stream request \<noteq> Some True"
    using all_attempts_raise_buffered[OF assms(4) tne] .
  from sweep_all_fail[OF af] obtain s' where
    r: "try_all_providers net request matching rr ?s1
          = (Inl (HTTPException 500 ''All providers failed''), s')"
      "posts s' = posts ?s1 @ issued request (traversal matching rr (last_provider_index ?s1))"
      "attempted (stdout s') = attempted (stdout ?s1) @
         map p_provider (traversal matching rr (last_provider_index ?s1))"
      "failures (stdout s') = failures (stdout ?s1) @
         map p_provider (traversal matching rr (last_provider_index ?s1))"
    by blast
  have c1: "request_model config environ net request token s
      = (Inl (HTTPException 500 ''All providers failed''), s')"
    using rm r(1) by simp
  have c2: "posts s' = posts s @ map (build_request request) ?t"
    using r(2) buffered by (simp add: issued_def)
  have c3: "attempted (stdout s') = attempted (stdout s) @ map p_provider ?t"
    using r(3) by (simp add: attempted_append)
  have c4: "failures (stdout s') = failures (stdout s) @ map p_provider ?t"
    using r(4) by (simp add: failures_append)
  have c5: "?t = map (\<lambda>i. matching ! nat (if rr then (last_provider_index s + int i) mod int (length matching)
                                      else int i)) [0..<length matching]"
    by (simp add: traversal_def traversal_indices_def computed_index_def)
  have c6: "?t = (if rr then rotate (nat (last_provider_index s mod int (length matching))) matching
             else matching)"
    by (simp add: traversal_round_robin traversal_sequential)
  from c1 c2 c3 c4 c5 c6 show ?thesis by (intro exI[of _ s'] conjI)
qed

theorem all_providers_failed_witness:
  "get_matching_providers ex_config (model ex_request) = ex_config
   \<and> use_round_robin_of [''USE_ROUND_ROBIN'' \<mapsto> ''True''] = True
   \<and> all_attempts_raise net_down ex_request [] (traversal ex_config True (- 1))
   \<and> fst (request_model ex_config [''USE_ROUND_ROBIN'' \<mapsto> ''True''] net_down ex_request ''sk-1'' init)
       = Inl (HTTPException 500 ''All providers failed'')
   \<and> attempted (stdout (snd (request_model ex_config [''USE_ROUND_ROBIN'' \<mapsto> ''True'']
         net_down ex_request ''sk-1'' init))) = [''anthropic'', ''openai'']
   \<and> failures (stdout (snd (request_model ex_config [''USE_ROUND_ROBIN'' \<mapsto> ''True'']
         net_down ex_request ''sk-1'' init))) = [''anthropic'', ''openai'']"
proof -
  have h2: "ex_config \<noteq> []" by (simp add: ex_config_def)
  have h4: "all_attempts_raise net_down ex_request (posts init)
      (traversal ex_config True (last_provider_index init))"
    by (simp add: init_def ex_rotation attempt_raises_def net_down_def ex_request_def)
  from all_providers_failed [OF ex_matching h2 ex_round_robin h4, of "''sk-1''"]
  obtain s' where
    r: "request_model ex_config [''USE_ROUND_ROBIN'' \<mapsto> ''True''] net_down ex_request ''sk-1'' init
          = (Inl (HTTPException 500 ''All providers failed''), s')"
      "attempted (stdout s') = attempted (stdout init) @
         map p_provider (traversal ex_config True (last_provider_index init))"
      "failures (stdout s') = failures (stdout init) @
         map p_provider (traversal ex_config True (last_provider_index init))"
    by blast
  have a: "attempted (stdout s') = [''anthropic'', ''openai'']"
    using r(2) by (simp add: init_def ex_rotation ex_anthropic_def ex_openai_def)
  have f: "failures (stdout s') = [''anthropic'', ''openai'']"
    using r(3) by (simp add: init_def ex_rotation ex_anthropic_def ex_openai_def)
  have h4': "all_attempts_raise net_down ex_request [] (traversal ex_config True (- 1))"
    using h4 by (simp add: init_def)
  show ?thesis using ex_matching ex_round_robin h4' r(1) a f by simp
qed

lemma ex_request_sequential:
  "request_model ex_config Map.empty net_error_status ex_request ''sk-1'' init =
     (Inr (Json (JObj [(''error'', JStr ''overloaded'')])),
      \<lparr> last_provider_index = 0,
        stdout = [PrintMatching ex_config, PrintProvider ''openai''],
        posts = [build_request ex_request ex_openai] \<rparr>)"
proof -
  have "ex_config \<noteq> []" by (simp add: ex_config_def)
  then have "request_model ex_config Map.empty net_error_status ex_request ''sk-1'' init =
      try_all_providers net_error_status ex_request ex_config False
        (init\<lparr>stdout := stdout init @ [PrintMatching ex_config]\<rparr>)"
    using request_model_sweep[of ex_config ex_request Map.empty net_error_status "''sk-1''" init]
    by (simp add: ex_matching use_round_robin_of_def lower_def lower_char_def)
  then show ?thesis
    by (simp add: try_all_providers_def ex_config_def upt_conv_Cons try_loop.simps(2)
      next_index_def py_index_def process_request_def fetch_response_def net_error_status_def
      ex_buffered init_def Let_def ex_openai_def)
qed

text \<open>
  The statement of C2 itself fails where a provider call fails by an error status: both
  providers answer 500 with a well-formed body, which the specification counts as a failed
  call, and the request returns the first provider's body as a success; the second provider
  is never tried.
\<close>

theorem error_status_everywhere_not_all_failed:
  "get_matching_providers ex_config (model ex_request) = [ex_openai, ex_anthropic]
   \<and> provider_failure (net_error_status [] (build_request ex_request ex_openai))
   \<and> provider_failure
        (net_error_status [build_request ex_request ex_openai]
           (build_request ex_request ex_anthropic))
   \<and> fst (request_model ex_config Map.empty net_error_status ex_request ''sk-1'' init)
       = Inr (Json (JObj [(''error'', JStr ''overloaded'')]))
   \<and> attempted (stdout (snd (request_model ex_config Map.empty net_error_status ex_request
         ''sk-1'' init))) = [''openai'']"
  by (simp add: ex_request_sequential ex_matching)
     (simp add: ex_config_def provider_failure_def net_error_status_def)

text \<open>
  C3, as the code has it. For every request and either traversal order: when the provider
  at position \<open>k\<close> of the order is the first whose call does not raise (its body parses,
  whatever the status code, or the request is a streaming one), the sweep returns exactly
  what \<^verbatim>\<open>process_request\<close> returns for that provider, called in a state \<open>sk\<close> in which the
  cursor already holds that provider's index and the \<open>k\<close> providers before it have been
  attempted and their exceptions printed. After the return, \<open>k + 1\<close> attempts have been
  announced and their requests issued: no later provider is called.
\<close>

theorem first_success_returned:
  assumes "k < length providers"
    and "order = traversal providers rr (last_provider_index s)"
    and "all_attempts_raise net request (posts s) (take k order)"
    and "\<not> attempt_raises net request (posts s @ issued request (take k order)) (order ! k)"
  shows "\<exists>sk response s'.
        try_all_providers net request providers rr s = (Inr response, s')
      \<and> process_request net request (order ! k) sk = (Inr response, s')
      \<and> last_provider_index sk = traversal_indices rr (last_provider_index s) (length providers) ! k
      \<and> posts sk = posts s @ issued request (take k order)
      \<and> attempted (stdout sk) = attempted (stdout s) @ map p_provider (take k order)
      \<and> failures (stdout sk) = failures (stdout s) @ map p_provider (take k order)
      \<and> last_provider_index s' = last_provider_index sk
      \<and> posts s' = posts s @ issued request (take (Suc k) order)
      \<and> attempted (stdout s') = attempted (stdout s) @ map p_provider (take (Suc k) order)
      \<and> failures (stdout s') = failures (stdout s) @ map p_provider (take k order)"
proof -
  let ?c = "last_provider_index s"
  have kt: "k < length order" using assms(1,2) by (simp add: traversal_length)
  from sweep_first_success[OF assms(1) assms(3)[unfolded assms(2)] assms(4)[unfolded assms(2)]]
  obtain sk where
    r: "try_all_providers net request providers rr s = process_request net request (order ! k) sk"
      "last_provider_index sk = computed_index rr ?c (length providers) k"
      "posts sk = posts s @ issued request (take k order)"
      "attempted (stdout sk) = attempted (stdout s) @ map p_provider (take k order)"
      "failures (stdout sk) = failures (stdout s) @ map p_provider (take k order)"
    unfolding assms(2)[symmetric] by blast
  have ok: "\<not> attempt_raises net request (posts sk) (order ! k)"
    using assms(4) r(3) by simp
  from process_request_ok[OF ok] obtain response where
    pr: "process_request net request (order ! k) sk =
           (Inr response, sk\<lparr>stdout := stdout sk @ [PrintProvider (p_provider (order ! k))],
                              posts := posts sk @ issued request [order ! k]\<rparr>)"
    by blast
  let ?s' = "sk\<lparr>stdout := stdout sk @ [PrintProvider (p_provider (order ! k))],
                 posts := posts sk @ issued request [order ! k]\<rparr>"
  have c1: "try_all_providers net request providers rr s = (Inr response, ?s')"
    using r(1) pr by simp
  have c3: "last_provider_index sk = traversal_indices rr ?c (length providers) ! k"
    using r(2) assms(1) by (simp add: traversal_indices_nth)
  have c7: "last_provider_index ?s' = last_provider_index sk" by simp
  have c8: "posts ?s' = posts s @ issued request (take (Suc k) order)"
    using r(3) take_Suc_issued[OF kt, of request] by simp
  have c9: "attempted (stdout ?s') = attempted (stdout s) @ map p_provider (take (Suc k) order)"
    using r(4) kt by (simp add: attempted_append take_Suc_conv_app_nth)
  have c10: "failures (stdout ?s') = failures (stdout s) @ map p_provider (take k order)"
    using r(5) by (simp add: failures_append)
  from c1 pr c3 r(3) r(4) r(5) c7 c8 c9 c10 show ?thesis
    by (intro exI[of _ sk] exI[of _ response] exI[of _ ?s'] conjI)
qed

text \<open>
  The scenario of the specification: two providers, sequential mode, the first call is a
  transport error and the second answers; two attempts are announced.
\<close>

theorem first_success_returned_witness:
  "all_attempts_raise net_second_ok ex_request [] [ex_openai]
   \<and> \<not> attempt_raises net_second_ok ex_request [build_request ex_request ex_openai] ex_anthropic
   \<and> fst (try_all_providers net_second_ok ex_request ex_config False init)
       = Inr (Json (JObj [(''id'', JStr ''r1'')]))
   \<and> attempted (stdout (snd (try_all_providers net_second_ok ex_request ex_config False init)))
       = [''openai'', ''anthropic'']
   \<and> failures (stdout (snd (try_all_providers net_second_ok ex_request ex_config False init)))
       = [''openai'']
   \<and> last_provider_index (snd (try_all_providers net_second_ok ex_request ex_config False init)) = 1"
proof -
  let ?order = "traversal ex_config False (last_provider_index init)"
  have h1: "1 < length ex_config" by (simp add: ex_config_def)
  have h3: "all_attempts_raise net_second_ok ex_request (posts init) (take 1 ?order)"
    by (simp add: ex_order init_def attempt_raises_def net_second_ok_def ex_buffered)
  have h4: "\<not> attempt_raises net_second_ok ex_request
      (posts init @ issued ex_request (take 1 ?order)) (?order ! 1)"
    by (simp add: ex_order init_def attempt_raises_def net_second_ok_def issued_def ex_buffered)
  from first_success_returned [OF h1 refl h3 h4]
  obtain sk response s' where
    r: "try_all_providers net_second_ok ex_request ex_config False init = (Inr response, s')"
      "process_request net_second_ok ex_request (?order ! 1) sk = (Inr response, s')"
      "posts sk = posts init @ issued ex_request (take 1 ?order)"
      "last_provider_index sk = traversal_indices False (last_provider_index init) (length ex_config) ! 1"
      "last_provider_index s' = last_provider_index sk"
      "attempted (stdout s') = attempted (stdout init) @ map p_provider (take (Suc 1) ?order)"
      "failures (stdout s') = failures (stdout init) @ map p_provider (take 1 ?order)"
    by blast
  have resp: "response = Json (JObj [(''id'', JStr ''r1'')])"
    using r(2) r(3)
    by (simp add: ex_order init_def process_request_def fetch_response_def net_second_ok_def
        issued_def ex_buffered Let_def)
  have a: "attempted (stdout s') = [''openai'', ''anthropic'']"
    using r(6) by (simp add: ex_order init_def ex_openai_def ex_anthropic_def)
  have f: "failures (stdout s') = [''openai'']"
    using r(7) by (simp add: ex_order init_def ex_openai_def)
  have c: "last_provider_index s' = 1"
    using r(4) r(5) h1 by (simp add: traversal_indices_nth computed_index_def)
  have g1: "all_attempts_raise net_second_ok ex_request [] [ex_openai]"
    using h3 by (simp add: ex_order init_def)
  have g2: "\<not> attempt_raises net_second_ok ex_request [build_request ex_request ex_openai] ex_anthropic"
    using h4 by (simp add: ex_order init_def issued_def ex_buffered)
  show ?thesis using g1 g2 r(1) resp a f c by simp
qed

lemma ex_sweep_first_500:
  "try_all_providers net_first_500 ex_request ex_config False init =
     (Inr (Json (JObj [(''error'', JStr ''overloaded'')])),
      \<lparr> last_provider_index = 0, stdout = [PrintProvider ''openai''],
        posts = [build_request ex_request ex_openai] \<rparr>)"
  by (simp add: try_all_providers_def ex_config_def upt_conv_Cons try_loop.simps(2)
      next_index_def py_index_def process_request_def fetch_response_def net_first_500_def
      ex_buffered init_def Let_def ex_openai_def)

text \<open>
  The statement of C3 itself fails where an earlier provider fails by an error status: the
  first provider answers 500 with a well-formed body and the second would answer 200, so the
  second is the first provider that succeeds; the sweep returns the first provider's error
  body, prints no failure and never calls the second.
\<close>

theorem error_status_first_hides_second:
  "traversal ex_config False (last_provider_index init) = [ex_openai, ex_anthropic]
   \<and> net_first_500 [] (build_request ex_request ex_openai)
       = Response 500 (Some (JObj [(''error'', JStr ''overloaded'')]))
   \<and> provider_failure (net_first_500 [] (build_request ex_request ex_openai))
   \<and> net_first_500 [build_request ex_request ex_openai] (build_request ex_request ex_anthropic)
       = Response 200 (Some (JObj [(''id'', JStr ''r1'')]))
   \<and> \<not> provider_failure
        (net_first_500 [build_request ex_request ex_openai]
           (build_request ex_request ex_anthropic))
   \<and> fst (try_all_providers net_first_500 ex_request ex_config False init)
       = Inr (Json (JObj [(''error'', JStr ''overloaded'')]))
   \<and> attempted (stdout (snd (try_all_providers net_first_500 ex_request ex_config False init)))
       = [''openai'']
   \<and> failures (stdout (snd (try_all_providers net_first_500 ex_request ex_config False init)))
       = []
   \<and> posts (snd (try_all_providers net_first_500 ex_request ex_config False init))
       = [build_request ex_request ex_openai]"
  by (simp add: ex_sweep_first_500 ex_order)
     (simp add: provider_failure_def net_first_500_def)

section \<open>The cursor\<close>

text \<open>
  Each segment of a sweep between two awaits leaves the provider list alone, only shortens
  the range still to come, and either leaves the cursor alone or sets it to a position of
  its own provider list.
\<close>

lemma advance_providers: "sw_providers (fst (advance t s)) = sw_providers t"
  by (simp add: advance_def Let_def split: list.splits sum.splits)

lemma advance_remaining: "set (sw_remaining (fst (advance t s))) \<subseteq> set (sw_remaining t)"
  by (auto simp add: advance_def Let_def split: list.splits sum.splits)

lemma advance_cursor:
  assumes "\<forall>i \<in> set (sw_remaining t). i < length (sw_providers t)"
  shows "last_provider_index (snd (advance t s)) = last_provider_index s
    \<or> (0 \<le> last_provider_index (snd (advance t s))
       \<and> last_provider_index (snd (advance t s)) < int (length (sw_providers t)))"
proof (cases "sw_remaining t")
  case Nil
  then show ?thesis by (simp add: advance_def)
next
  case (Cons i rest)
  with assms have i: "i < length (sw_providers t)" by simp
  let ?k = "computed_index (sw_round_robin t) (sw_start_index t) (length (sw_providers t)) i"
  from computed_index_range[OF i, of "sw_round_robin t" "sw_start_index t"]
  have r: "0 \<le> ?k" "?k < int (length (sw_providers t))" by simp_all
  have "last_provider_index (snd (advance t s)) = ?k"
    using r by (simp add: advance_def Cons next_index_computed[OF i] py_index_in_range Let_def)
  with r show ?thesis by simp
qed

lemma advance_attempt:
  assumes "\<forall>i \<in> set (sw_remaining t). i < length (sw_providers t)"
    and "sw_awaiting (fst (advance t s)) = Some p"
    and "sw_awaiting t = None"
  shows "0 \<le> last_provider_index (snd (advance t s))
    \<and> last_provider_index (snd (advance t s)) < int (length (sw_providers t))
    \<and> py_index (sw_providers t) (last_provider_index (snd (advance t s))) = Inr p"
proof (cases "sw_remaining t")
  case Nil
  with assms(2) show ?thesis by (simp add: advance_def)
next
  case (Cons i rest)
  with assms(1) have i: "i < length (sw_providers t)" by simp
  let ?k = "computed_index (sw_round_robin t) (sw_start_index t) (length (sw_providers t)) i"
  from computed_index_range[OF i, of "sw_round_robin t" "sw_start_index t"]
  have r: "0 \<le> ?k" "?k < int (length (sw_providers t))" by simp_all
  have c: "last_provider_index (snd (advance t s)) = ?k"
    using r by (simp add: advance_def Cons next_index_computed[OF i] py_index_in_range Let_def)
  have p: "p = sw_providers t ! nat ?k"
    using assms(2,3) r
    by (simp add: advance_def Cons next_index_computed[OF i] py_index_in_range Let_def
        split: if_splits)
  show ?thesis unfolding c using r p by (simp add: py_index_in_range)
qed

lemma complete_providers: "sw_providers (fst (complete outcome t s)) = sw_providers t"
  by (simp add: complete_def advance_providers split: option.splits http_outcome.splits)

lemma complete_remaining:
  "set (sw_remaining (fst (complete outcome t s))) \<subseteq> set (sw_remaining t)"
proof (cases "sw_awaiting t")
  case None
  then show ?thesis by (simp add: complete_def)
next
  case (Some provider)
  have adv: "set (sw_remaining (fst (advance (t\<lparr>sw_awaiting := None\<rparr>) s')))
      \<subseteq> set (sw_remaining t)" for s'
    using advance_remaining[of "t\<lparr>sw_awaiting := None\<rparr>" s'] by simp
  show ?thesis
  proof (cases outcome)
    case ConnectFailed
    with Some adv show ?thesis by (simp add: complete_def)
  next
    case (Response status body)
    with Some adv show ?thesis by (cases body) (simp_all add: complete_def)
  qed
qed

lemma complete_cursor:
  assumes "\<forall>i \<in> set (sw_remaining t). i < length (sw_providers t)"
  shows "last_provider_index (snd (complete outcome t s)) = last_provider_index s
    \<or> (0 \<le> last_provider_index (snd (complete outcome t s))
       \<and> last_provider_index (snd (complete outcome t s)) < int (length (sw_providers t)))"
proof (cases "sw_awaiting t")
  case None
  then show ?thesis by (simp add: complete_def)
next
  case (Some provider)
  have a: "\<forall>i \<in> set (sw_remaining (t\<lparr>sw_awaiting := None\<rparr>)).
      i < length (sw_providers (t\<lparr>sw_awaiting := None\<rparr>))"
    using assms by simp
  have adv: "last_provider_index (snd (advance (t\<lparr>sw_awaiting := None\<rparr>) (s\<lparr>stdout := out\<rparr>)))
        = last_provider_index s
    \<or> (0 \<le> last_provider_index (snd (advance (t\<lparr>sw_awaiting := None\<rparr>) (s\<lparr>stdout := out\<rparr>)))
       \<and> last_provider_index (snd (advance (t\<lparr>sw_awaiting := None\<rparr>) (s\<lparr>stdout := out\<rparr>)))
           < int (length (sw_providers t)))" for out
    using advance_cursor[OF a, of "s\<lparr>stdout := out\<rparr>"] by simp
  show ?thesis
  proof (cases outcome)
    case ConnectFailed
    with Some adv show ?thesis by (simp add: complete_def)
  next
    case (Response status body)
    with Some adv show ?thesis by (cases body) (simp_all add: complete_def)
  qed
qed

lemma arrive_unfold:
  "arrive config environ request s =
     (if get_matching_providers config (model request) = []
      then (\<lparr> sw_request = request,
               sw_providers = get_matching_providers config (model request),
               sw_round_robin = use_round_robin_of environ,
               sw_start_index =
                 (if use_round_robin_of environ then last_provider_index s else 0),
               sw_remaining = [0..<length (get_matching_providers config (model request))],
               sw_awaiting = None,
               sw_outcome = Some (Inl (HTTPException 404 ''No matching model found'')) \<rparr>,
            s\<lparr>stdout := stdout s @
                 [PrintMatching (get_matching_providers config (model request))]\<rparr>)
      else advance
             \<lparr> sw_request = request,
               sw_providers = get_matching_providers config (model request),
               sw_round_robin = use_round_robin_of environ,
               sw_start_index =
                 (if use_round_robin_of environ then last_provider_index s else 0),
               sw_remaining = [0..<length (get_matching_providers config (model request))],
               sw_awaiting = None, sw_outcome = None \<rparr>
             (s\<lparr>stdout := stdout s @
                  [PrintMatching (get_matching_providers config (model request))]\<rparr>))"
  by (simp add: arrive_def Let_def)

lemma arrive_providers:
  "sw_providers (fst (arrive config environ request s))
     = get_matching_providers config (model request)"
  by (simp add: arrive_unfold advance_providers)

lemma arrive_remaining:
  "\<forall>i \<in> set (sw_remaining (fst (arrive config environ request s))).
     i < length (sw_providers (fst (arrive config environ request s)))"
proof -
  let ?m = "get_matching_providers config (model request)"
  let ?t = "\<lparr> sw_request = request, sw_providers = ?m,
               sw_round_robin = use_round_robin_of environ,
               sw_start_index =
                 (if use_round_robin_of environ then last_provider_index s else 0),
               sw_remaining = [0..<length ?m],
               sw_awaiting = None, sw_outcome = None \<rparr>"
  have "set (sw_remaining (fst (advance ?t s'))) \<subseteq> {0..<length ?m}" for s'
    using advance_remaining[of ?t s'] by simp
  then have "\<forall>i \<in> set (sw_remaining (fst (advance ?t s'))). i < length ?m" for s'
    by fastforce
  then show ?thesis
    unfolding arrive_providers by (simp add: arrive_unfold)
qed

lemma arrive_cursor:
  "last_provider_index (snd (arrive config environ request s)) = last_provider_index s
    \<or> (0 \<le> last_provider_index (snd (arrive config environ request s))
       \<and> last_provider_index (snd (arrive config environ request s))
           < int (length (sw_providers (fst (arrive config environ request s)))))"
proof -
  let ?m = "get_matching_providers config (model request)"
  let ?t = "\<lparr> sw_request = request, sw_providers = ?m,
               sw_round_robin = use_round_robin_of environ,
               sw_start_index =
                 (if use_round_robin_of environ then last_provider_index s else 0),
               sw_remaining = [0..<length ?m],
               sw_awaiting = None, sw_outcome = None \<rparr>"
  let ?s1 = "s\<lparr>stdout := stdout s @ [PrintMatching ?m]\<rparr>"
  have wf: "\<forall>i \<in> set (sw_remaining ?t). i < length (sw_providers ?t)" by simp
  from advance_cursor[OF wf, of ?s1]
  have "last_provider_index (snd (advance ?t ?s1)) = last_provider_index s
    \<or> (0 \<le> last_provider_index (snd (advance ?t ?s1))
       \<and> last_provider_index (snd (advance ?t ?s1)) < int (length ?m))"
    by simp
  then show ?thesis
    unfolding arrive_providers by (simp add: arrive_unfold)
qed

lemma matching_length: "length (get_matching_providers config m) \<le> length config"
  by (simp add: get_matching_providers_def)

lemma update_keeps:
  assumes "w \<in> set xs" and "j < length xs" and "f t' = f (xs ! j)"
  shows "\<exists>w' \<in> set (xs[j := t']). f w' = f w"
proof -
  from assms(1) obtain k where k: "k < length xs" "xs ! k = w"
    by (auto simp add: in_set_conv_nth)
  show ?thesis
  proof (cases "k = j")
    case True
    with assms k have "t' \<in> set (xs[j := t'])" "f t' = f w"
      by (simp_all add: set_update_memI)
    then show ?thesis by blast
  next
    case False
    with k have "xs[j := t'] ! k = w" "k < length (xs[j := t'])" by simp_all
    then have "w \<in> set (xs[j := t'])" by (metis nth_mem)
    then show ?thesis by blast
  qed
qed

lemma step_consistent:
  assumes "consistent config sys"
  shows "consistent config (step config a sys)"
proof (cases a)
  case (Arrive environ request)
  let ?r = "arrive config environ request (shared sys)"
  have st: "step config a sys = \<lparr> shared = snd ?r, sweeps = sweeps sys @ [fst ?r] \<rparr>"
    by (simp add: step_def Arrive split: prod.splits)
  have wf: "\<forall>t \<in> set (sweeps sys @ [fst ?r]).
         (\<forall>i \<in> set (sw_remaining t). i < length (sw_providers t))
       \<and> length (sw_providers t) \<le> length config"
    using assms arrive_remaining[of config environ request "shared sys"]
    by (auto simp add: consistent_def arrive_providers matching_length)
  have cur: "last_provider_index (snd ?r) = - 1
         \<or> (\<exists>t \<in> set (sweeps sys @ [fst ?r]).
               0 \<le> last_provider_index (snd ?r)
             \<and> last_provider_index (snd ?r) < int (length (sw_providers t)))"
    using assms arrive_cursor[of config environ request "shared sys"]
    by (auto simp add: consistent_def)
  from wf cur show ?thesis unfolding st by (simp add: consistent_def)
next
  case (Complete j outcome)
  show ?thesis
  proof (cases "j < length (sweeps sys)")
    case False
    with assms show ?thesis by (simp add: step_def Complete)
  next
    case True
    let ?t = "sweeps sys ! j"
    let ?r = "complete outcome ?t (shared sys)"
    have st: "step config a sys = \<lparr> shared = snd ?r, sweeps = (sweeps sys)[j := fst ?r] \<rparr>"
      using True by (simp add: step_def Complete split: prod.splits)
    have tj: "?t \<in> set (sweeps sys)" using True by simp
    with assms have wft: "\<forall>i \<in> set (sw_remaining ?t). i < length (sw_providers ?t)"
      "length (sw_providers ?t) \<le> length config"
      by (simp_all add: consistent_def)
    have wfr: "(\<forall>i \<in> set (sw_remaining (fst ?r)). i < length (sw_providers (fst ?r)))
       \<and> length (sw_providers (fst ?r)) \<le> length config"
      using wft complete_remaining[of outcome ?t "shared sys"]
      by (auto simp add: complete_providers)
    have wf: "\<forall>t \<in> set ((sweeps sys)[j := fst ?r]).
         (\<forall>i \<in> set (sw_remaining t). i < length (sw_providers t))
       \<and> length (sw_providers t) \<le> length config"
    proof
      fix t assume "t \<in> set ((sweeps sys)[j := fst ?r])"
      then have "t = fst ?r \<or> t \<in> set (sweeps sys)"
        using set_update_subset_insert[of "sweeps sys" j "fst ?r"] by auto
      with wfr assms show "(\<forall>i \<in> set (sw_remaining t). i < length (sw_providers t))
       \<and> length (sw_providers t) \<le> length config"
        by (auto simp add: consistent_def)
    qed
    have mem: "fst ?r \<in> set ((sweeps sys)[j := fst ?r])"
      using True by (simp add: set_update_memI)
    from complete_cursor[OF wft(1), of outcome "shared sys"]
    have cur: "last_provider_index (snd ?r) = - 1
         \<or> (\<exists>t \<in> set ((sweeps sys)[j := fst ?r]).
               0 \<le> last_provider_index (snd ?r)
             \<and> last_provider_index (snd ?r) < int (length (sw_providers t)))"
    proof
      assume same: "last_provider_index (snd ?r) = last_provider_index (shared sys)"
      from assms have "last_provider_index (shared sys) = - 1
         \<or> (\<exists>w \<in> set (sweeps sys).
               0 \<le> last_provider_index (shared sys)
             \<and> last_provider_index (shared sys) < int (length (sw_providers w)))"
        by (simp add: consistent_def)
      then show ?thesis
      proof
        assume "last_provider_index (shared sys) = - 1"
        with same show ?thesis by simp
      next
        assume "\<exists>w \<in> set (sweeps sys).
               0 \<le> last_provider_index (shared sys)
             \<and> last_provider_index (shared sys) < int (length (sw_providers w))"
        then obtain w where w: "w \<in> set (sweeps sys)"
          "0 \<le> last_provider_index (shared sys)"
          "last_provider_index (shared sys) < int (length (sw_providers w))" by blast
        from update_keeps[OF w(1) True, of sw_providers "fst ?r"]
        obtain w' where w': "w' \<in> set ((sweeps sys)[j := fst ?r])"
          "sw_providers w' = sw_providers w"
          by (auto simp add: complete_providers)
        have "0 \<le> last_provider_index (snd ?r)
             \<and> last_provider_index (snd ?r) < int (length (sw_providers w'))"
          using w(2,3) w'(2) same by simp
        with w'(1) show ?thesis by blast
      qed
    next
      assume "0 \<le> last_provider_index (snd ?r)
       \<and> last_provider_index (snd ?r) < int (length (sw_providers ?t))"
      then have "0 \<le> last_provider_index (snd ?r)
       \<and> last_provider_index (snd ?r) < int (length (sw_providers (fst ?r)))"
        by (simp add: complete_providers)
      with mem show ?thesis by blast
    qed
    from wf cur show ?thesis unfolding st by (simp add: consistent_def)
  qed
qed

lemma run_consistent:
  "consistent config sys \<Longrightarrow> consistent config (run config actions sys)"
  by (induction actions arbitrary: sys) (simp_all add: step_consistent)

lemma boot_consistent: "consistent config boot"
  by (simp add: consistent_def boot_def init_def)

lemma consistent_bounds:
  assumes "consistent config sys"
  shows "- 1 \<le> last_provider_index (shared sys)
    \<and> last_provider_index (shared sys) \<le> int (length config) - 1"
  using assms by (fastforce simp add: consistent_def)

text \<open>
  A request served with nothing else in flight does what \<open>request_model\<close> does: the
  segments of the concurrent process, run back to back, are the sequential function.
\<close>

lemma solo_idle: "sw_awaiting t = None \<Longrightarrow> solo net fuel (t, s) = (t, s)"
  by (cases fuel) simp_all

lemma solo_advance:
  assumes "sw_awaiting t = None" and "length (sw_remaining t) \<le> fuel"
  shows "sw_outcome (fst (solo net fuel (advance t s)))
           = Some (fst (try_loop net (sw_request t) (sw_providers t) (sw_round_robin t)
                          (sw_start_index t) (sw_remaining t) s))
    \<and> snd (solo net fuel (advance t s))
        = snd (try_loop net (sw_request t) (sw_providers t) (sw_round_robin t)
                 (sw_start_index t) (sw_remaining t) s)
    \<and> sw_awaiting (fst (solo net fuel (advance t s))) = None"
  using assms
proof (induction "sw_remaining t" arbitrary: t s fuel)
  case Nil
  from Nil(1)[symmetric] show ?case
    by (simp add: advance_def solo_idle)
next
  case (Cons i rest)
  note rem = Cons(2)[symmetric]
  let ?ni = "next_index (sw_round_robin t) (sw_start_index t) (length (sw_providers t)) i"
  show ?case
  proof (cases ?ni)
    case (Inl e)
    then show ?thesis
      by (simp add: advance_def rem try_loop.simps(2) solo_idle)
  next
    case (Inr k)
    let ?s1 = "s\<lparr>last_provider_index := k\<rparr>"
    show ?thesis
    proof (cases "py_index (sw_providers t) k")
      case (Inl e)
      with Inr show ?thesis
        by (simp add: advance_def rem try_loop.simps(2) solo_idle)
    next
      case py: (Inr provider)
      let ?s2 = "?s1\<lparr>stdout := stdout ?s1 @ [PrintProvider (p_provider provider)]\<rparr>"
      let ?req = "build_request (sw_request t) provider"
      show ?thesis
      proof (cases "stream (sw_request t) = Some True")
        case True
        with Inr py show ?thesis
          by (simp add: advance_def rem try_loop.simps(2) solo_idle process_request_def Let_def)
      next
        case False
        let ?ta = "t\<lparr>sw_remaining := rest, sw_awaiting := Some provider\<rparr>"
        let ?s3 = "?s2\<lparr>posts := posts ?s2 @ [?req]\<rparr>"
        have adv: "advance t s = (?ta, ?s3)"
          using Inr py False by (simp add: advance_def rem Let_def)
        from Cons.prems(2) rem obtain f where f: "fuel = Suc f" "length rest \<le> f"
          by (cases fuel) auto
        have so: "solo net fuel (advance t s)
            = solo net f (complete (net (posts s) ?req) ?ta ?s3)"
          unfolding adv f(1) by simp
        show ?thesis
        proof (cases "net (posts s) ?req")
          case ConnectFailed
          let ?t2 = "t\<lparr>sw_remaining := rest, sw_awaiting := None\<rparr>"
          let ?s4 = "?s3\<lparr>stdout := stdout ?s3 @ [PrintError (p_provider provider) TransportError]\<rparr>"
          have c: "complete (net (posts s) ?req) ?ta ?s3 = advance ?t2 ?s4"
            using ConnectFailed by (simp add: complete_def)
          have pr: "process_request net (sw_request t) provider ?s1 = (Inl TransportError, ?s3)"
            using ConnectFailed False
            by (simp add: process_request_def fetch_response_def Let_def)
          have tl: "try_loop net (sw_request t) (sw_providers t) (sw_round_robin t)
                 (sw_start_index t) (sw_remaining t) s
              = try_loop net (sw_request t) (sw_providers t) (sw_round_robin t)
                 (sw_start_index t) rest ?s4"
            unfolding rem by (simp add: try_loop.simps(2) Inr py pr)
          have ih: "sw_outcome (fst (solo net f (advance ?t2 ?s4)))
               = Some (fst (try_loop net (sw_request ?t2) (sw_providers ?t2) (sw_round_robin ?t2)
                          (sw_start_index ?t2) (sw_remaining ?t2) ?s4))
            \<and> snd (solo net f (advance ?t2 ?s4))
                = snd (try_loop net (sw_request ?t2) (sw_providers ?t2) (sw_round_robin ?t2)
                         (sw_start_index ?t2) (sw_remaining ?t2) ?s4)
            \<and> sw_awaiting (fst (solo net f (advance ?t2 ?s4))) = None"
            by (rule Cons(1)) (simp_all add: f(2))
          show ?thesis unfolding so c tl using ih by simp
        next
          case (Response status body)
          show ?thesis
          proof (cases body)
            case None
            let ?t2 = "t\<lparr>sw_remaining := rest, sw_awaiting := None\<rparr>"
            let ?s4 = "?s3\<lparr>stdout := stdout ?s3 @ [PrintError (p_provider provider) JSONDecodeError]\<rparr>"
            have c: "complete (net (posts s) ?req) ?ta ?s3 = advance ?t2 ?s4"
              using Response None by (simp add: complete_def)
            have pr: "process_request net (sw_request t) provider ?s1 = (Inl JSONDecodeError, ?s3)"
              using Response None False
              by (simp add: process_request_def fetch_response_def Let_def)
            have tl: "try_loop net (sw_request t) (sw_providers t) (sw_round_robin t)
                   (sw_start_index t) (sw_remaining t) s
                = try_loop net (sw_request t) (sw_providers t) (sw_round_robin t)
                   (sw_start_index t) rest ?s4"
              unfolding rem by (simp add: try_loop.simps(2) Inr py pr)
            have ih: "sw_outcome (fst (solo net f (advance ?t2 ?s4)))
                 = Some (fst (try_loop net (sw_request ?t2) (sw_providers ?t2) (sw_round_robin ?t2)
                            (sw_start_index ?t2) (sw_remaining ?t2) ?s4))
              \<and> snd (solo net f (advance ?t2 ?s4))
                  = snd (try_loop net (sw_request ?t2) (sw_providers ?t2) (sw_round_robin ?t2)
                           (sw_start_index ?t2) (sw_remaining ?t2) ?s4)
              \<and> sw_awaiting (fst (solo net f (advance ?t2 ?s4))) = None"
              by (rule Cons(1)) (simp_all add: f(2))
            show ?thesis unfolding so c tl using ih by simp
          next
            case (Some j)
            have c: "complete (net (posts s) ?req) ?ta ?s3
                = (?ta\<lparr>sw_awaiting := None, sw_outcome := Some (Inr (Json j))\<rparr>, ?s3)"
              using Response Some by (simp add: complete_def)
            have pr: "process_request net (sw_request t) provider ?s1 = (Inr (Json j), ?s3)"
              using Response Some False
              by (simp add: process_request_def fetch_response_def Let_def)
            have tl: "try_loop net (sw_request t) (sw_providers t) (sw_round_robin t)
                   (sw_start_index t) (sw_remaining t) s = (Inr (Json j), ?s3)"
              unfolding rem by (simp add: try_loop.simps(2) Inr py pr)
            show ?thesis unfolding so c tl by (simp add: solo_idle)
          qed
        qed
      qed
    qed
  qed
qed

lemma solo_request_model:
  "sw_outcome (fst (solo net (length config) (arrive config environ request s)))
     = Some (fst (request_model config environ net request token s))
   \<and> snd (solo net (length config) (arrive config environ request s))
       = snd (request_model config environ net request token s)"
proof (cases "get_matching_providers config (model request) = []")
  case True
  then show ?thesis
    by (simp add: arrive_unfold request_model_def Let_def solo_idle)
next
  case False
  let ?m = "get_matching_providers config (model request)"
  let ?s1 = "s\<lparr>stdout := stdout s @ [PrintMatching ?m]\<rparr>"
  let ?t = "\<lparr> sw_request = request, sw_providers = ?m,
               sw_round_robin = use_round_robin_of environ,
               sw_start_index =
                 (if use_round_robin_of environ then last_provider_index s else 0),
               sw_remaining = [0..<length ?m],
               sw_awaiting = None, sw_outcome = None \<rparr>"
  have a: "sw_awaiting ?t = None" by simp
  have b: "length (sw_remaining ?t) \<le> length config" by (simp add: matching_length)
  from solo_advance[OF a b, of net ?s1] False show ?thesis
    by (simp add: arrive_unfold request_model_sweep try_all_providers_def Let_def)
qed

lemma ex_sequential: "use_round_robin_of Map.empty = False"
  by (simp add: use_round_robin_of_def lower_def lower_char_def)

lemma ex_run:
  "run ex_registry ex_schedule boot =
     \<lparr> shared =
         \<lparr> last_provider_index = 1,
           stdout = [PrintMatching [ex_solo], PrintProvider ''solo'',
                     PrintMatching [ex_openai, ex_anthropic], PrintProvider ''openai'',
                     PrintError ''openai'' TransportError, PrintProvider ''anthropic''],
           posts = [build_request ex_request_z ex_solo, build_request ex_request ex_openai,
                    build_request ex_request ex_anthropic] \<rparr>,
       sweeps =
         [\<lparr> sw_request = ex_request_z, sw_providers = [ex_solo], sw_round_robin = False,
            sw_start_index = 0, sw_remaining = [], sw_awaiting = None,
            sw_outcome = Some (Inr (Json (JObj [(''id'', JStr ''r1'')]))) \<rparr>,
          \<lparr> sw_request = ex_request, sw_providers = [ex_openai, ex_anthropic],
            sw_round_robin = False, sw_start_index = 0, sw_remaining = [],
            sw_awaiting = Some ex_anthropic, sw_outcome = None \<rparr>] \<rparr>"
proof -
  have m1: "get_matching_providers ex_registry (model ex_request_z) = [ex_solo]"
    by (simp add: get_matching_providers_def ex_registry_def ex_request_z_def ex_request_def
        ex_openai_def ex_anthropic_def ex_solo_def)
  have m2: "get_matching_providers ex_registry (model ex_request) = [ex_openai, ex_anthropic]"
    by (simp add: get_matching_providers_def ex_registry_def ex_request_def
        ex_openai_def ex_anthropic_def ex_solo_def)
  have b1: "stream ex_request_z \<noteq> Some True" by (simp add: ex_request_z_def ex_request_def)
  have names: "p_provider ex_solo = ''solo''" "p_provider ex_openai = ''openai''"
    "p_provider ex_anthropic = ''anthropic''"
    by (simp_all add: ex_solo_def ex_openai_def ex_anthropic_def)
  show ?thesis
    by (simp add: ex_schedule_def boot_def init_def step_def arrive_def advance_def complete_def
        m1 m2 b1 ex_buffered names ex_sequential upt_conv_Cons next_index_def py_index_def Let_def)
qed

text \<open>
  C9, as the code has it. The cursor starts at \<open>-1\<close>. Every attempt, in either mode, sets it
  to an index \<open>k\<close> with \<open>0 \<le> k < n\<close> of the list being traversed, at which the subscription
  succeeds; this holds for a sweep on its own and for each segment of a sweep among
  concurrent requests, where the provider is read at the cursor before the call is awaited.
  After a sweep over \<open>n \<ge> 1\<close> providers that no other request interleaves with, the cursor
  lies in \<open>[0, n - 1]\<close>, hence in \<open>[-1, n - 1]\<close>. Among concurrent requests the cursor is at
  every moment \<open>-1\<close> or a position of the provider list of one of the sweeps started so
  far, hence in \<open>[-1, N - 1]\<close> for the size \<open>N\<close> of the registry. The last two conjuncts say
  that the concurrent process with a single request in flight is \<open>request_model\<close>.
\<close>

theorem cursor_invariant:
  assumes "providers \<noteq> []"
  shows "last_provider_index init = - 1
    \<and> 0 \<le> last_provider_index (snd (try_all_providers net request providers rr s))
    \<and> last_provider_index (snd (try_all_providers net request providers rr s))
        \<le> int (length providers) - 1
    \<and> (\<forall>i<length providers. \<exists>k.
          next_index rr start (length providers) i = Inr k
        \<and> 0 \<le> k \<and> k < int (length providers)
        \<and> py_index providers k = Inr (providers ! nat k))
    \<and> ((\<forall>i \<in> set (sw_remaining t). i < length (sw_providers t)) \<longrightarrow>
        sw_awaiting t = None \<longrightarrow>
        sw_awaiting (fst (advance t st)) = Some p \<longrightarrow>
          0 \<le> last_provider_index (snd (advance t st))
        \<and> last_provider_index (snd (advance t st)) < int (length (sw_providers t))
        \<and> py_index (sw_providers t) (last_provider_index (snd (advance t st))) = Inr p)
    \<and> (last_provider_index (shared (run config actions boot)) = - 1
       \<or> (\<exists>t \<in> set (sweeps (run config actions boot)).
             0 \<le> last_provider_index (shared (run config actions boot))
           \<and> last_provider_index (shared (run config actions boot))
               < int (length (sw_providers t))))
    \<and> - 1 \<le> last_provider_index (shared (run config actions boot))
    \<and> last_provider_index (shared (run config actions boot)) \<le> int (length config) - 1
    \<and> sw_outcome (fst (solo net2 (length config) (arrive config environ request2 s2)))
        = Some (fst (request_model config environ net2 request2 token s2))
    \<and> snd (solo net2 (length config) (arrive config environ request2 s2))
        = snd (request_model config environ net2 request2 token s2)"
proof -
  from sweep_general[OF assms, of net request rr s]
  obtain m where m: "m < length providers"
    "last_provider_index (snd (try_all_providers net request providers rr s))
       = computed_index rr (last_provider_index s) (length providers) m"
    by blast
  from computed_index_range[OF m(1), of rr "last_provider_index s"] m(2)
  have a: "0 \<le> last_provider_index (snd (try_all_providers net request providers rr s))"
    "last_provider_index (snd (try_all_providers net request providers rr s))
       \<le> int (length providers) - 1"
    by simp_all
  have b: "\<forall>i<length providers. \<exists>k.
          next_index rr start (length providers) i = Inr k
        \<and> 0 \<le> k \<and> k < int (length providers)
        \<and> py_index providers k = Inr (providers ! nat k)"
  proof (intro allI impI)
    fix i assume i: "i < length providers"
    from computed_index_range[OF i, of rr start]
    show "\<exists>k. next_index rr start (length providers) i = Inr k
        \<and> 0 \<le> k \<and> k < int (length providers)
        \<and> py_index providers k = Inr (providers ! nat k)"
      by (intro exI[of _ "computed_index rr start (length providers) i"])
         (simp add: next_index_computed[OF i] py_index_in_range)
  qed
  have c: "(\<forall>i \<in> set (sw_remaining t). i < length (sw_providers t)) \<longrightarrow>
        sw_awaiting t = None \<longrightarrow>
        sw_awaiting (fst (advance t st)) = Some p \<longrightarrow>
          0 \<le> last_provider_index (snd (advance t st))
        \<and> last_provider_index (snd (advance t st)) < int (length (sw_providers t))
        \<and> py_index (sw_providers t) (last_provider_index (snd (advance t st))) = Inr p"
    using advance_attempt[of t st p] by blast
  have inv: "consistent config (run config actions boot)"
    by (rule run_consistent) (rule boot_consistent)
  then have d: "last_provider_index (shared (run config actions boot)) = - 1
       \<or> (\<exists>t \<in> set (sweeps (run config actions boot)).
             0 \<le> last_provider_index (shared (run config actions boot))
           \<and> last_provider_index (shared (run config actions boot))
               < int (length (sw_providers t)))"
    by (simp add: consistent_def)
  from consistent_bounds[OF inv]
  have e: "- 1 \<le> last_provider_index (shared (run config actions boot))"
    "last_provider_index (shared (run config actions boot)) \<le> int (length config) - 1"
    by simp_all
  from solo_request_model[of net2 config environ request2 s2 token]
  have f: "sw_outcome (fst (solo net2 (length config) (arrive config environ request2 s2)))
        = Some (fst (request_model config environ net2 request2 token s2))"
    "snd (solo net2 (length config) (arrive config environ request2 s2))
        = snd (request_model config environ net2 request2 token s2)"
    by simp_all
  have g: "last_provider_index init = - 1" by (simp add: init_def)
  from g a b c d e f show ?thesis by (intro conjI)
qed

theorem cursor_invariant_witness:
  "ex_config \<noteq> []
   \<and> 0 \<le> last_provider_index (snd (try_all_providers net_down ex_request ex_config True init))
   \<and> last_provider_index (snd (try_all_providers net_down ex_request ex_config True init)) \<le> 1
   \<and> last_provider_index (shared (run ex_registry ex_schedule boot)) = 1
   \<and> last_provider_index (shared (run ex_registry ex_schedule boot)) \<le> 2"
proof -
  have h: "ex_config \<noteq> []" by (simp add: ex_config_def)
  have l: "int (length ex_config) - 1 = 1" by (simp add: ex_config_def)
  have l2: "int (length ex_registry) - 1 = 2" by (simp add: ex_registry_def)
  have v: "last_provider_index (shared (run ex_registry ex_schedule boot)) = 1"
    by (simp add: ex_run)
  from cursor_invariant [OF h, of net_down ex_request True init _ _ _ _ ex_registry ex_schedule]
  have r: "0 \<le> last_provider_index (snd (try_all_providers net_down ex_request ex_config True init))"
    "last_provider_index (snd (try_all_providers net_down ex_request ex_config True init))
        \<le> int (length ex_config) - 1"
    "last_provider_index (shared (run ex_registry ex_schedule boot))
        \<le> int (length ex_registry) - 1"
    by blast+
  show ?thesis using h r v unfolding l l2 by simp
qed

text \<open>
  The statement of C9 itself fails among concurrent requests: a request over one provider
  waits for its call while a request over two providers moves the cursor to its second
  provider; when the first request's sweep returns, the cursor is \<open>1\<close>, outside
  \<open>[-1, 0]\<close>.
\<close>

theorem interleaved_sweep_cursor_out_of_range:
  "sw_outcome (sweeps (run ex_registry ex_schedule boot) ! 0)
     = Some (Inr (Json (JObj [(''id'', JStr ''r1'')])))
   \<and> length (sw_providers (sweeps (run ex_registry ex_schedule boot) ! 0)) = 1
   \<and> last_provider_index (shared (run ex_registry ex_schedule boot)) = 1
   \<and> \<not> last_provider_index (shared (run ex_registry ex_schedule boot))
        \<le> int (length (sw_providers (sweeps (run ex_registry ex_schedule boot) ! 0))) - 1"
  by (simp add: ex_run)

section \<open>Round-robin order\<close>

lemma traversal_Cons:
  assumes "providers \<noteq> []"
  shows "traversal providers rr c =
     providers ! nat (computed_index rr c (length providers) 0)
       # map (\<lambda>i. providers ! nat (computed_index rr c (length providers) i))
           [Suc 0..<length providers]"
proof -
  have "[0..<length providers] = 0 # [Suc 0..<length providers]"
    using assms by (simp add: upt_conv_Cons)
  then show ?thesis
    unfolding traversal_upt[symmetric] by simp
qed

lemma traversal_indices_hd:
  assumes "0 < n"
  shows "hd (traversal_indices rr c n) = computed_index rr c n 0"
proof -
  have "[0..<n] = 0 # [Suc 0..<n]" using assms by (simp add: upt_conv_Cons)
  then show ?thesis by (simp add: traversal_indices_def)
qed

lemma ex_sweep_round_robin:
  "try_all_providers net_error_status ex_request ex_config True init =
     (Inr (Json (JObj [(''error'', JStr ''overloaded'')])),
      \<lparr> last_provider_index = 1, stdout = [PrintProvider ''anthropic''],
        posts = [build_request ex_request ex_anthropic] \<rparr>)"
  by (simp add: try_all_providers_def ex_config_def upt_conv_Cons try_loop.simps(2)
      next_index_def py_mod_def py_index_def process_request_def fetch_response_def
      net_error_status_def ex_buffered init_def Let_def ex_anthropic_def)

text \<open>
  C4. In round-robin mode over \<open>n \<ge> 1\<close> providers the indices of the traversal are
  \<open>(offset + i) mod n\<close> for \<open>i = 0, \<dots>, n - 1\<close>, the offset being the cursor at the
  start of the call (\<open>-1\<close> on first use, which makes \<open>n - 1\<close> the first index). Each
  iteration stores the computed index in the cursor before it calls \<^verbatim>\<open>process_request\<close>, and
  the sweep attempts a non-empty prefix of that order, leaving the cursor at the index
  attempted last. Hence the next call over the same list starts at
  \<open>(final index of the first call) mod n\<close>, which is that final index itself: its first
  attempt is the provider the first call ended on.
\<close>

theorem round_robin_traversal:
  assumes "providers \<noteq> []"
    and "s' = snd (try_all_providers net request providers True s)"
  shows "traversal_indices True (last_provider_index s) (length providers)
           = map (\<lambda>i. (last_provider_index s + int i) mod int (length providers))
               [0..<length providers]
    \<and> (\<exists>m<length providers.
          last_provider_index s' = (last_provider_index s + int m) mod int (length providers)
        \<and> attempted (stdout s') = attempted (stdout s) @
            map p_provider (take (Suc m) (traversal providers True (last_provider_index s)))
        \<and> posts s' = posts s @
            issued request (take (Suc m) (traversal providers True (last_provider_index s))))
    \<and> hd (traversal_indices True (last_provider_index s') (length providers))
        = last_provider_index s' mod int (length providers)
    \<and> last_provider_index s' mod int (length providers) = last_provider_index s'
    \<and> (\<exists>others.
          attempted (stdout (snd (try_all_providers net2 request2 providers True s')))
            = attempted (stdout s') @
              p_provider (providers ! nat (last_provider_index s' mod int (length providers)))
                # others)
    \<and> last_provider_index init = - 1
    \<and> hd (traversal_indices True (last_provider_index init) (length providers))
        = int (length providers) - 1
    \<and> (\<forall>i<length providers.
          try_loop net request providers True start (i # rest) st =
            (case process_request net request
                    (providers ! nat ((start + int i) mod int (length providers)))
                    (st\<lparr>last_provider_index := (start + int i) mod int (length providers)\<rparr>) of
               (Inr response, s2) \<Rightarrow> (Inr response, s2)
             | (Inl e, s2) \<Rightarrow>
                 try_loop net request providers True start rest
                   (s2\<lparr>stdout := stdout s2 @
                      [PrintError
                         (p_provider (providers ! nat ((start + int i) mod int (length providers))))
                         e]\<rparr>)))"
proof -
  let ?n = "length providers"
  have n: "0 < ?n" using assms(1) by simp
  have A: "traversal_indices True (last_provider_index s) ?n
           = map (\<lambda>i. (last_provider_index s + int i) mod int ?n) [0..<?n]"
    by (simp add: traversal_indices_def computed_index_def)
  from sweep_general[OF assms(1), of net request True s]
  obtain m where m: "m < ?n"
    "last_provider_index s' = computed_index True (last_provider_index s) ?n m"
    "attempted (stdout s') = attempted (stdout s) @
       map p_provider (take (Suc m) (traversal providers True (last_provider_index s)))"
    "posts s' = posts s @
       issued request (take (Suc m) (traversal providers True (last_provider_index s)))"
    unfolding assms(2) by blast
  have B: "\<exists>m<?n.
          last_provider_index s' = (last_provider_index s + int m) mod int ?n
        \<and> attempted (stdout s') = attempted (stdout s) @
            map p_provider (take (Suc m) (traversal providers True (last_provider_index s)))
        \<and> posts s' = posts s @
            issued request (take (Suc m) (traversal providers True (last_provider_index s)))"
    using m by (intro exI[of _ m]) (simp add: computed_index_def)
  have range: "0 \<le> last_provider_index s'" "last_provider_index s' < int ?n"
    using computed_index_range[OF m(1), of True "last_provider_index s"] m(2) by simp_all
  have D: "last_provider_index s' mod int ?n = last_provider_index s'"
    using range by simp
  have C: "hd (traversal_indices True (last_provider_index s') ?n)
        = last_provider_index s' mod int ?n"
    by (simp add: traversal_indices_hd[OF n] computed_index_def)
  from sweep_general[OF assms(1), of net2 request2 True s']
  obtain m2 where m2:
    "attempted (stdout (snd (try_all_providers net2 request2 providers True s')))
       = attempted (stdout s') @
         map p_provider (take (Suc m2) (traversal providers True (last_provider_index s')))"
    by blast
  have E: "\<exists>others.
          attempted (stdout (snd (try_all_providers net2 request2 providers True s')))
            = attempted (stdout s') @
              p_provider (providers ! nat (last_provider_index s' mod int ?n)) # others"
    unfolding m2 traversal_Cons[OF assms(1)]
    by (simp add: computed_index_def)
  have F: "last_provider_index init = - 1" by (simp add: init_def)
  have G: "hd (traversal_indices True (last_provider_index init) ?n) = int ?n - 1"
  proof -
    have "(- 1) mod int ?n = int ?n - 1"
      using n by (simp add: zmod_minus1)
    then show ?thesis
      by (simp add: traversal_indices_hd[OF n] computed_index_def init_def)
  qed
  have H: "\<forall>i<?n.
          try_loop net request providers True start (i # rest) st =
            (case process_request net request
                    (providers ! nat ((start + int i) mod int ?n))
                    (st\<lparr>last_provider_index := (start + int i) mod int ?n\<rparr>) of
               (Inr response, s2) \<Rightarrow> (Inr response, s2)
             | (Inl e, s2) \<Rightarrow>
                 try_loop net request providers True start rest
                   (s2\<lparr>stdout := stdout s2 @
                      [PrintError
                         (p_provider (providers ! nat ((start + int i) mod int ?n)))
                         e]\<rparr>))"
  proof (intro allI impI)
    fix i assume i: "i < ?n"
    from try_loop_step[OF i, of net request True start rest st]
    show "try_loop net request providers True start (i # rest) st =
            (case process_request net request
                    (providers ! nat ((start + int i) mod int ?n))
                    (st\<lparr>last_provider_index := (start + int i) mod int ?n\<rparr>) of
               (Inr response, s2) \<Rightarrow> (Inr response, s2)
             | (Inl e, s2) \<Rightarrow>
                 try_loop net request providers True start rest
                   (s2\<lparr>stdout := stdout s2 @
                      [PrintError
                         (p_provider (providers ! nat ((start + int i) mod int ?n)))
                         e]\<rparr>))"
      unfolding computed_index_def if_True .
  qed
  from A B C D E F G H show ?thesis by (intro conjI)
qed

theorem round_robin_traversal_witness:
  "ex_config \<noteq> []
   \<and> last_provider_index (snd (try_all_providers net_error_status ex_request ex_config True init)) = 1
   \<and> hd (traversal_indices True (- 1) 2) = 1
   \<and> hd (traversal_indices True 1 2) = 1
   \<and> (\<exists>others.
        attempted (stdout (snd (try_all_providers net_down ex_request ex_config True
          \<lparr> last_provider_index = 1, stdout = [PrintProvider ''anthropic''],
            posts = [build_request ex_request ex_anthropic] \<rparr>)))
          = ''anthropic'' # ''anthropic'' # others)"
proof -
  let ?s' = "\<lparr> last_provider_index = 1, stdout = [PrintProvider ''anthropic''],
              posts = [build_request ex_request ex_anthropic] \<rparr>"
  have h1: "ex_config \<noteq> []" by (simp add: ex_config_def)
  have h2: "?s' = snd (try_all_providers net_error_status ex_request ex_config True init)"
    by (simp add: ex_sweep_round_robin)
  have n: "length ex_config = 2" by (simp add: ex_config_def)
  have p: "p_provider (ex_config ! Suc 0) = ''anthropic''"
    by (simp add: ex_config_def ex_anthropic_def)
  from round_robin_traversal [OF h1 h2, of net_down ex_request]
  have r: "hd (traversal_indices True (last_provider_index ?s') (length ex_config))
        = last_provider_index ?s' mod int (length ex_config)"
    "\<exists>others.
          attempted (stdout (snd (try_all_providers net_down ex_request ex_config True ?s')))
            = attempted (stdout ?s') @
              p_provider (ex_config ! nat (last_provider_index ?s' mod int (length ex_config)))
                # others"
    "hd (traversal_indices True (last_provider_index init) (length ex_config))
        = int (length ex_config) - 1"
    by blast+
  have a: "hd (traversal_indices True 1 2) = 1" using r(1) by (simp add: n)
  have b: "hd (traversal_indices True (- 1) 2) = 1" using r(3) by (simp add: n init_def)
  have c: "\<exists>others.
        attempted (stdout (snd (try_all_providers net_down ex_request ex_config True ?s')))
          = ''anthropic'' # ''anthropic'' # others"
    using r(2) by (simp add: n p)
  show ?thesis using h1 a b c by (simp add: ex_sweep_round_robin)
qed

section \<open>What the coordinator catches\<close>

lemma ex_sweep_error_status:
  "try_all_providers net_error_status ex_request ex_config False init =
     (Inr (Json (JObj [(''error'', JStr ''overloaded'')])),
      \<lparr> last_provider_index = 0, stdout = [PrintProvider ''openai''],
        posts = [build_request ex_request ex_openai] \<rparr>)"
  by (simp add: try_all_providers_def ex_config_def upt_conv_Cons try_loop.simps(2)
      next_index_def py_index_def process_request_def fetch_response_def net_error_status_def
      ex_buffered init_def Let_def ex_openai_def)

lemma ex_first_attempt:
  "process_request net_second_ok ex_request ex_openai (init\<lparr>last_provider_index := 0\<rparr>) =
     (Inl TransportError,
      \<lparr> last_provider_index = 0, stdout = [PrintProvider ''openai''],
        posts = [build_request ex_request ex_openai] \<rparr>)"
  by (simp add: process_request_def fetch_response_def net_second_ok_def ex_buffered init_def
      Let_def ex_openai_def)

text \<open>
  C8, as the code has it. An attempt fails exactly when \<^verbatim>\<open>process_request\<close> raises: the
  request is buffered and \<^verbatim>\<open>client.post\<close> raises or the body does not parse. Every such
  exception is caught by the coordinator, printed with the provider's name, and the loop
  goes on with the next index; the only exception that leaves \<^verbatim>\<open>try_all_providers\<close> is the
  final 500. The status code of a response is never read, so a response with an error
  status and a body that parses is returned as the result; and a streaming request returns
  its \<^verbatim>\<open>StreamingResponse\<close> before any request is issued, so it cannot fail inside the
  sweep.
\<close>

theorem provider_exceptions_caught:
  "isl (fst (process_request net request provider st))
     = attempt_raises net request (posts st) provider
   \<and> (stream request \<noteq> Some True \<longrightarrow>
        net (posts st) (build_request request provider) = Response status (Some body) \<longrightarrow>
        fst (process_request net request provider st) = Inr (Json body))
   \<and> (stream request = Some True \<longrightarrow>
        process_request net request provider st
          = (Inr (StreamingResponse (build_request request provider) ''text/event-stream''),
             st\<lparr>stdout := stdout st @ [PrintProvider (p_provider provider)]\<rparr>))
   \<and> (fst (try_all_providers net request providers rr s) = Inl e \<longrightarrow>
        e = HTTPException 500 ''All providers failed'')
   \<and> (i < length providers \<longrightarrow>
        process_request net request
          (providers ! nat (computed_index rr start (length providers) i))
          (st\<lparr>last_provider_index := computed_index rr start (length providers) i\<rparr>)
          = (Inl e', s2) \<longrightarrow>
        try_loop net request providers rr start (i # rest) st
          = try_loop net request providers rr start rest
              (s2\<lparr>stdout := stdout s2 @
                 [PrintError (p_provider (providers ! nat (computed_index rr start (length providers) i))) e']\<rparr>))
   \<and> (providers \<noteq> [] \<longrightarrow>
        (\<exists>m<length providers.
           all_attempts_raise net request (posts s)
             (take m (traversal providers rr (last_provider_index s)))
         \<and> failures (stdout (snd (try_all_providers net request providers rr s)))
             = failures (stdout s) @
               map p_provider
                 (take (if isl (fst (try_all_providers net request providers rr s))
                        then Suc m else m)
                    (traversal providers rr (last_provider_index s)))
         \<and> attempted (stdout (snd (try_all_providers net request providers rr s)))
             = attempted (stdout s) @
               map p_provider (take (Suc m) (traversal providers rr (last_provider_index s)))))"
proof (intro conjI impI)
  show "isl (fst (process_request net request provider st))
     = attempt_raises net request (posts st) provider"
    by (rule process_request_isl)
next
  assume "stream request \<noteq> Some True"
    and "net (posts st) (build_request request provider) = Response status (Some body)"
  then show "fst (process_request net request provider st) = Inr (Json body)"
    by (simp add: process_request_def fetch_response_def Let_def)
next
  assume "stream request = Some True"
  then show "process_request net request provider st
          = (Inr (StreamingResponse (build_request request provider) ''text/event-stream''),
             st\<lparr>stdout := stdout st @ [PrintProvider (p_provider provider)]\<rparr>)"
    by (simp add: process_request_def Let_def)
next
  assume l: "fst (try_all_providers net request providers rr s) = Inl e"
  show "e = HTTPException 500 ''All providers failed''"
  proof (cases "providers = []")
    case True
    with l show ?thesis by (simp add: try_all_providers_def)
  next
    case False
    from sweep_general[OF False, of net request rr s] l show ?thesis by auto
  qed
next
  assume i: "i < length providers"
    and "process_request net request
          (providers ! nat (computed_index rr start (length providers) i))
          (st\<lparr>last_provider_index := computed_index rr start (length providers) i\<rparr>)
          = (Inl e', s2)"
  then show "try_loop net request providers rr start (i # rest) st
          = try_loop net request providers rr start rest
              (s2\<lparr>stdout := stdout s2 @
                 [PrintError (p_provider (providers ! nat (computed_index rr start (length providers) i))) e']\<rparr>)"
    by (subst try_loop_step[OF i]) simp
next
  assume ne: "providers \<noteq> []"
  from sweep_general[OF ne, of net request rr s]
  show "\<exists>m<length providers.
           all_attempts_raise net request (posts s)
             (take m (traversal providers rr (last_provider_index s)))
         \<and> failures (stdout (snd (try_all_providers net request providers rr s)))
             = failures (stdout s) @
               map p_provider
                 (take (if isl (fst (try_all_providers net request providers rr s))
                        then Suc m else m)
                    (traversal providers rr (last_provider_index s)))
         \<and> attempted (stdout (snd (try_all_providers net request providers rr s)))
             = attempted (stdout s) @
               map p_provider (take (Suc m) (traversal providers rr (last_provider_index s)))"
    by blast
qed

theorem provider_exceptions_caught_witness:
  "0 < length ex_config
   \<and> process_request net_second_ok ex_request ex_openai (init\<lparr>last_provider_index := 0\<rparr>) =
       (Inl TransportError,
        \<lparr> last_provider_index = 0, stdout = [PrintProvider ''openai''],
          posts = [build_request ex_request ex_openai] \<rparr>)
   \<and> try_loop net_second_ok ex_request ex_config False 0 [0, 1] init =
       try_loop net_second_ok ex_request ex_config False 0 [1]
         \<lparr> last_provider_index = 0,
           stdout = [PrintProvider ''openai'', PrintError ''openai'' TransportError],
           posts = [build_request ex_request ex_openai] \<rparr>
   \<and> isl (fst (process_request net_second_ok ex_request ex_openai init))"
proof -
  have h1: "0 < length ex_config" by (simp add: ex_config_def)
  have p: "ex_config ! nat 0 = ex_openai"
    by (simp add: ex_config_def)
  have c: "computed_index False 0 (length ex_config) 0 = 0"
    by (simp add: computed_index_def)
  have f: "attempt_raises net_second_ok ex_request (posts init) ex_openai"
    by (simp add: attempt_raises_def net_second_ok_def init_def ex_buffered)
  from provider_exceptions_caught
    [where net = net_second_ok and request = ex_request and provider = ex_openai
       and st = init and providers = ex_config and rr = False and start = 0 and i = 0
       and rest = "[1]" and e' = TransportError
       and ?s2.0 = "\<lparr> last_provider_index = 0, stdout = [PrintProvider ''openai''],
                       posts = [build_request ex_request ex_openai] \<rparr>"]
  have r: "isl (fst (process_request net_second_ok ex_request ex_openai init))
             = attempt_raises net_second_ok ex_request (posts init) ex_openai"
    "0 < length ex_config \<longrightarrow>
        process_request net_second_ok ex_request
          (ex_config ! nat (computed_index False 0 (length ex_config) 0))
          (init\<lparr>last_provider_index := computed_index False 0 (length ex_config) 0\<rparr>)
          = (Inl TransportError,
             \<lparr> last_provider_index = 0, stdout = [PrintProvider ''openai''],
               posts = [build_request ex_request ex_openai] \<rparr>) \<longrightarrow>
        try_loop net_second_ok ex_request ex_config False 0 [0, 1] init
          = try_loop net_second_ok ex_request ex_config False 0 [1]
              (\<lparr> last_provider_index = 0, stdout = [PrintProvider ''openai''],
                 posts = [build_request ex_request ex_openai] \<rparr>
               \<lparr>stdout := stdout \<lparr> last_provider_index = 0, stdout = [PrintProvider ''openai''],
                                    posts = [build_request ex_request ex_openai] \<rparr> @
                 [PrintError (p_provider (ex_config ! nat (computed_index False 0 (length ex_config) 0)))
                    TransportError]\<rparr>)"
    by blast+
  have s: "try_loop net_second_ok ex_request ex_config False 0 [0, 1] init =
       try_loop net_second_ok ex_request ex_config False 0 [1]
         \<lparr> last_provider_index = 0,
           stdout = [PrintProvider ''openai'', PrintError ''openai'' TransportError],
           posts = [build_request ex_request ex_openai] \<rparr>"
    using r(2)[unfolded c p, rule_format, OF h1 ex_first_attempt]
    by (simp add: ex_openai_def)
  show ?thesis using h1 ex_first_attempt s r(1) f by simp
qed

text \<open>
  The statement of C8 itself fails for a response with an error status: the first provider
  answers 500 with a well-formed body, the sweep returns that body as a success, prints no
  failure and never calls the second provider.
\<close>

theorem error_status_returned_as_success:
  "net_error_status [] (build_request ex_request ex_openai)
     = Response 500 (Some (JObj [(''error'', JStr ''overloaded'')]))
   \<and> fst (try_all_providers net_error_status ex_request ex_config False init)
       = Inr (Json (JObj [(''error'', JStr ''overloaded'')]))
   \<and> stdout (snd (try_all_providers net_error_status ex_request ex_config False init))
       = [PrintProvider ''openai'']
   \<and> posts (snd (try_all_providers net_error_status ex_request ex_config False init))
       = [build_request ex_request ex_openai]"
  by (simp add: ex_sweep_error_status) (simp add: net_error_status_def)

end
